theory Spec2Isabelle
  imports
    Main
    "HOL-Library.Word"
    "HOL-Library.Char_ord"
    "HOL-Library.List_Lexorder"
begin

unbundle bit_operations_syntax

section \<open>Byte strings\<close>

text \<open>
  Go's \<open>[]byte\<close> and \<open>string\<close> are sequences of bytes; both are modelled as
  \<^typ>\<open>string\<close> (a list of 8-bit characters).  Go compares strings byte-wise
  lexicographically, which is the order of \<open>List_Lexorder\<close> over \<open>Char_ord\<close>.
\<close>

definition dquote :: char where
  "dquote = CHR 0x22"

definition newline :: char where
  "newline = CHR 0x0A"

text \<open>\<open>bytes.IndexByte(b, c)\<close>: index of the first \<open>c\<close> in \<open>b\<close>; \<open>None\<close> is Go's \<open>-1\<close>.\<close>

fun IndexByte :: "string \<Rightarrow> char \<Rightarrow> nat option" where
  "IndexByte [] c = None"
| "IndexByte (x # xs) c = (if x = c then Some 0 else map_option Suc (IndexByte xs c))"

definition HasPrefix :: "string \<Rightarrow> string \<Rightarrow> bool" where
  "HasPrefix s p = (take (length p) s = p)"

text \<open>\<open>bytes.Index(s, sep)\<close>: index of the first instance of \<open>sep\<close> in \<open>s\<close>, or \<open>-1\<close>.\<close>

fun Index :: "string \<Rightarrow> string \<Rightarrow> nat option" where
  "Index [] sep = (if sep = [] then Some 0 else None)"
| "Index (x # xs) sep =
     (if HasPrefix (x # xs) sep then Some 0 else map_option Suc (Index xs sep))"

section \<open>Extracting the FEN field of a JSON line\<close>

text \<open>The constant \<open>prefix\<close> of both \<open>extractFEN\<close> functions: the seven bytes \<open>"fen":"\<close>.\<close>

definition fen_prefix :: string where
  "fen_prefix = dquote # ''fen'' @ [dquote, CHR '':'', dquote]"

text \<open>\<open>extractFEN\<close> of package \<open>search\<close> (internal/search/binary.go).\<close>

definition extractFEN :: "string \<Rightarrow> string" where
  "extractFEN line =
     (case Index line fen_prefix of
        None \<Rightarrow> []
      | Some idx \<Rightarrow>
          (let start = idx + length fen_prefix in
           case IndexByte (drop start line) dquote of
             None \<Rightarrow> []
           | Some e \<Rightarrow> take e (drop start line)))"

text \<open>\<open>extractFEN\<close> of package \<open>builder\<close> (internal/builder/builder.go).\<close>

definition builder_extractFEN :: "string \<Rightarrow> string" where
  "builder_extractFEN line =
     (case Index line fen_prefix of
        None \<Rightarrow> []
      | Some idx \<Rightarrow>
          (let start = idx + length fen_prefix in
           case IndexByte (drop start line) dquote of
             None \<Rightarrow> []
           | Some e \<Rightarrow> take e (drop start line)))"

text \<open>
  \<open>occurs_at s sep i\<close>: the substring \<open>sep\<close> occurs in \<open>s\<close> at byte offset \<open>i\<close>.
\<close>

definition occurs_at :: "string \<Rightarrow> string \<Rightarrow> nat \<Rightarrow> bool" where
  "occurs_at s sep i = (i + length sep \<le> length s \<and> take (length sep) (drop i s) = sep)"

text \<open>\<open>first_occurrence s sep i\<close>: the first occurrence of \<open>sep\<close> in \<open>s\<close> is at offset \<open>i\<close>.\<close>

definition first_occurrence :: "string \<Rightarrow> string \<Rightarrow> nat \<Rightarrow> bool" where
  "first_occurrence s sep i = (occurs_at s sep i \<and> (\<forall>j<i. \<not> occurs_at s sep j))"

section \<open>Properties of the byte primitives\<close>

lemma IndexByte_None_iff: "IndexByte s c = None \<longleftrightarrow> c \<notin> set s"
  by (induction s) auto

lemma IndexByte_Some_D:
  "IndexByte s c = Some i \<Longrightarrow> i < length s \<and> s ! i = c \<and> c \<notin> set (take i s)"
proof (induction s arbitrary: i)
  case Nil
  then show ?case by simp
next
  case (Cons x xs)
  show ?case
  proof (cases "x = c")
    case True
    with Cons.prems show ?thesis by simp
  next
    case False
    with Cons.prems obtain j where j: "IndexByte xs c = Some j" "i = Suc j"
      by auto
    from Cons.IH [OF j(1)] False j(2) show ?thesis by simp
  qed
qed

lemma IndexByte_append_fresh:
  "c \<notin> set u \<Longrightarrow> IndexByte (u @ c # r) c = Some (length u)"
  by (induction u) auto

lemma HasPrefix_occurs_at_0: "HasPrefix s sep \<longleftrightarrow> occurs_at s sep 0"
proof
  assume h: "HasPrefix s sep"
  then have "length (take (length sep) s) = length sep"
    by (simp add: HasPrefix_def)
  then have "length sep \<le> length s" by simp
  with h show "occurs_at s sep 0" by (simp add: occurs_at_def HasPrefix_def)
next
  assume "occurs_at s sep 0"
  then show "HasPrefix s sep" by (simp add: occurs_at_def HasPrefix_def)
qed

lemma occurs_at_Cons_Suc: "occurs_at (x # xs) sep (Suc i) \<longleftrightarrow> occurs_at xs sep i"
  by (simp add: occurs_at_def)

lemma Index_None_iff: "Index s sep = None \<longleftrightarrow> (\<forall>i. \<not> occurs_at s sep i)"
proof (induction s)
  case Nil
  show ?case by (auto simp: occurs_at_def)
next
  case (Cons x xs)
  show ?case
  proof (cases "HasPrefix (x # xs) sep")
    case True
    then have "occurs_at (x # xs) sep 0" by (simp add: HasPrefix_occurs_at_0)
    with True show ?thesis by auto
  next
    case False
    then have no0: "\<not> occurs_at (x # xs) sep 0" by (simp add: HasPrefix_occurs_at_0)
    have "(\<forall>i. \<not> occurs_at (x # xs) sep i) \<longleftrightarrow> (\<forall>i. \<not> occurs_at xs sep i)"
    proof
      assume a: "\<forall>i. \<not> occurs_at (x # xs) sep i"
      show "\<forall>i. \<not> occurs_at xs sep i"
      proof
        fix i
        from a have "\<not> occurs_at (x # xs) sep (Suc i)" by blast
        then show "\<not> occurs_at xs sep i" by (simp add: occurs_at_Cons_Suc)
      qed
    next
      assume a: "\<forall>i. \<not> occurs_at xs sep i"
      show "\<forall>i. \<not> occurs_at (x # xs) sep i"
      proof
        fix i
        show "\<not> occurs_at (x # xs) sep i"
        proof (cases i)
          case 0
          with no0 show ?thesis by simp
        next
          case (Suc j)
          with a show ?thesis by (simp add: occurs_at_Cons_Suc)
        qed
      qed
    qed
    with False Cons.IH show ?thesis by simp
  qed
qed

lemma Index_Some_D:
  "Index s sep = Some i \<Longrightarrow> occurs_at s sep i \<and> (\<forall>j<i. \<not> occurs_at s sep j)"
proof (induction s arbitrary: i)
  case Nil
  then show ?case by (auto simp: occurs_at_def split: if_splits)
next
  case (Cons x xs)
  show ?case
  proof (cases "HasPrefix (x # xs) sep")
    case True
    with Cons.prems have "i = 0" by simp
    with True show ?thesis by (simp add: HasPrefix_occurs_at_0)
  next
    case False
    then have no0: "\<not> occurs_at (x # xs) sep 0" by (simp add: HasPrefix_occurs_at_0)
    from False Cons.prems obtain k where k: "Index xs sep = Some k" "i = Suc k"
      by auto
    from Cons.IH [OF k(1)] have ih: "occurs_at xs sep k" "\<forall>j<k. \<not> occurs_at xs sep j"
      by simp_all
    have "\<forall>j<i. \<not> occurs_at (x # xs) sep j"
    proof (intro allI impI)
      fix j assume "j < i"
      show "\<not> occurs_at (x # xs) sep j"
      proof (cases j)
        case 0
        with no0 show ?thesis by simp
      next
        case (Suc j')
        with \<open>j < i\<close> k(2) have "j' < k" by simp
        with ih(2) Suc show ?thesis by (simp add: occurs_at_Cons_Suc)
      qed
    qed
    with ih(1) k(2) show ?thesis by (simp add: occurs_at_Cons_Suc)
  qed
qed

lemma Index_first_occurrence:
  assumes occ: "occurs_at s sep i" and first: "\<forall>j<i. \<not> occurs_at s sep j"
  shows "Index s sep = Some i"
proof (cases "Index s sep")
  case None
  with occ show ?thesis by (simp add: Index_None_iff)
next
  case (Some k)
  from Index_Some_D [OF Some] have k: "occurs_at s sep k" "\<forall>j<k. \<not> occurs_at s sep j"
    by simp_all
  have "\<not> k < i" using first k(1) by blast
  moreover have "\<not> i < k" using k(2) occ by blast
  ultimately have "k = i" by simp
  with Some show ?thesis by simp
qed

lemma occurs_at_append: "occurs_at (pre @ sep @ r) sep (length pre)"
  by (simp add: occurs_at_def)

lemma occurs_at_split:
  assumes "occurs_at s sep i"
  shows "s = take i s @ sep @ drop (i + length sep) s"
proof -
  from assms have "take (length sep) (drop i s) = sep" by (simp add: occurs_at_def)
  then have "drop i s = sep @ drop (length sep) (drop i s)"
    by (metis append_take_drop_id)
  then have "s = take i s @ sep @ drop (length sep) (drop i s)"
    by (metis append_take_drop_id)
  then show ?thesis by (simp add: add.commute)
qed

section \<open>The two extraction functions\<close>

lemma extractFEN_absent:
  "\<forall>i. \<not> occurs_at line fen_prefix i \<Longrightarrow> extractFEN line = []"
  by (simp add: extractFEN_def Index_None_iff [symmetric])

lemma extractFEN_found:
  assumes "dquote \<notin> set fen" and "\<forall>j<length pre. \<not> occurs_at (pre @ fen_prefix @ fen @ dquote # r) fen_prefix j"
  shows "extractFEN (pre @ fen_prefix @ fen @ dquote # r) = fen"
proof -
  let ?line = "pre @ fen_prefix @ fen @ dquote # r"
  have "occurs_at ?line fen_prefix (length pre)" by (rule occurs_at_append)
  then have idx: "Index ?line fen_prefix = Some (length pre)"
    using assms(2) by (rule Index_first_occurrence)
  have d: "drop (length pre + length fen_prefix) ?line = fen @ dquote # r" by simp
  have "IndexByte (fen @ dquote # r) dquote = Some (length fen)"
    using assms(1) by (rule IndexByte_append_fresh)
  with idx d show ?thesis by (simp add: extractFEN_def Let_def del: append_assoc)
qed

lemma extractFEN_unterminated:
  assumes "dquote \<notin> set r" and "\<forall>j<length pre. \<not> occurs_at (pre @ fen_prefix @ r) fen_prefix j"
  shows "extractFEN (pre @ fen_prefix @ r) = []"
proof -
  let ?line = "pre @ fen_prefix @ r"
  have "occurs_at ?line fen_prefix (length pre)" by (rule occurs_at_append)
  then have idx: "Index ?line fen_prefix = Some (length pre)"
    using assms(2) by (rule Index_first_occurrence)
  have d: "drop (length pre + length fen_prefix) ?line = r" by simp
  have "IndexByte r dquote = None" using assms(1) by (simp add: IndexByte_None_iff)
  with idx d show ?thesis by (simp add: extractFEN_def Let_def del: append_assoc)
qed

lemma builder_extractFEN_eq: "builder_extractFEN line = extractFEN line"
  unfolding builder_extractFEN_def extractFEN_def by (rule refl)

text \<open>
  Claim C9.  The builder's \<open>extractFEN\<close> and the search package's \<open>extractFEN\<close> are the
  same function on every byte line.  Each returns the bytes between the first occurrence
  of the seven-byte prefix \<open>"fen":"\<close> and the next double quote; each returns the empty
  string when the prefix does not occur, and when no double quote follows the prefix.
\<close>

theorem extractFEN_builder_search_agree:
  "builder_extractFEN line = extractFEN line
   \<and> ((\<forall>i. \<not> occurs_at line fen_prefix i) \<longrightarrow>
        builder_extractFEN line = [] \<and> extractFEN line = [])
   \<and> (\<forall>pre fen r.
        line = pre @ fen_prefix @ fen @ dquote # r
        \<and> first_occurrence line fen_prefix (length pre) \<and> dquote \<notin> set fen \<longrightarrow>
        builder_extractFEN line = fen \<and> extractFEN line = fen)
   \<and> (\<forall>pre r.
        line = pre @ fen_prefix @ r
        \<and> first_occurrence line fen_prefix (length pre) \<and> dquote \<notin> set r \<longrightarrow>
        builder_extractFEN line = [] \<and> extractFEN line = [])"
proof (intro conjI allI impI)
  show "builder_extractFEN line = extractFEN line" by (rule builder_extractFEN_eq)
next
  assume "\<forall>i. \<not> occurs_at line fen_prefix i"
  then have "extractFEN line = []" by (rule extractFEN_absent)
  then show "builder_extractFEN line = []" "extractFEN line = []"
    by (simp_all add: builder_extractFEN_eq)
next
  fix pre fen r
  assume a: "line = pre @ fen_prefix @ fen @ dquote # r
     \<and> first_occurrence line fen_prefix (length pre) \<and> dquote \<notin> set fen"
  then have "extractFEN (pre @ fen_prefix @ fen @ dquote # r) = fen"
    by (intro extractFEN_found) (auto simp: first_occurrence_def)
  with a show "builder_extractFEN line = fen" "extractFEN line = fen"
    by (simp_all add: builder_extractFEN_eq)
next
  fix pre r
  assume a: "line = pre @ fen_prefix @ r
     \<and> first_occurrence line fen_prefix (length pre) \<and> dquote \<notin> set r"
  then have "extractFEN (pre @ fen_prefix @ r) = []"
    by (intro extractFEN_unterminated) (auto simp: first_occurrence_def)
  with a show "builder_extractFEN line = []" "extractFEN line = []"
    by (simp_all add: builder_extractFEN_eq)
qed

theorem extractFEN_builder_search_agree_witness:
  "first_occurrence (''{'' @ fen_prefix @ ''8/8 w - -'' @ dquote # '',x}'') fen_prefix (length ''{'')
   \<and> dquote \<notin> set ''8/8 w - -''
   \<and> builder_extractFEN (''{'' @ fen_prefix @ ''8/8 w - -'' @ dquote # '',x}'') = ''8/8 w - -''
   \<and> extractFEN (''{'' @ fen_prefix @ ''8/8 w - -'' @ dquote # '',x}'') = ''8/8 w - -''
   \<and> \<not> occurs_at ''{}'' fen_prefix 0
   \<and> builder_extractFEN ''{}'' = [] \<and> extractFEN ''{}'' = []"
proof -
  let ?l = "''{'' @ fen_prefix @ ''8/8 w - -'' @ dquote # '',x}''"
  have f: "first_occurrence ?l fen_prefix (length ''{'')"
    by (simp add: first_occurrence_def occurs_at_def fen_prefix_def dquote_def)
  have q: "dquote \<notin> set ''8/8 w - -''" by (simp add: dquote_def)
  have n: "\<forall>i. \<not> occurs_at ''{}'' fen_prefix i"
    by (simp add: occurs_at_def fen_prefix_def)
  from extractFEN_builder_search_agree [of ?l] f q
  have "builder_extractFEN ?l = ''8/8 w - -'' \<and> extractFEN ?l = ''8/8 w - -''"
    by blast
  moreover from extractFEN_builder_search_agree [of "''{}''"] n
  have "builder_extractFEN ''{}'' = [] \<and> extractFEN ''{}'' = []"
    by blast
  ultimately show ?thesis using f q n by blast
qed

section \<open>Errors\<close>

text \<open>
  The sentinel errors of the packages, errors raised by libraries (\<open>External\<close>, with the
  library's message), and \<open>fmt.Errorf("msg: %w", err)\<close> as \<open>Wrap msg err\<close>.
\<close>

datatype err =
    SearchErrNotFound
  | StoreErrNotFound
  | ErrNotFound
  | ErrClosed
  | ErrNoStore
  | ErrInvalidFEN
  | Canceled
  | DeadlineExceeded
  | External string
  | Wrap string err


section \<open>Binary search within a shard (internal/search/binary.go)\<close>

text \<open>\<open>search.EvalRecord\<close> and its anonymous nested structs.\<close>

record PVRecord =
  rec_CP :: "int option"
  rec_Mate :: "int option"
  rec_Line :: string

record EvalEntry =
  rec_PVs :: "PVRecord list"
  rec_Knodes :: int
  rec_Depth :: int

record EvalRecord =
  rec_FEN :: string
  rec_Evals :: "EvalEntry list"

text \<open>\<open>splitLines\<close>: the loop consumes \<open>data\<close> up to and including the next newline.\<close>

function splitLines :: "string \<Rightarrow> string list" where
  "splitLines data =
     (if data = [] then []
      else case IndexByte data newline of
             None \<Rightarrow> [data]
           | Some idx \<Rightarrow>
               (if take idx data \<noteq> [] then [take idx data] else [])
               @ splitLines (drop (idx + 1) data))"
  by pat_completeness auto
termination
  by (relation "measure length") auto

declare splitLines.simps [simp del]

text \<open>
  \<open>sort.Search(n, f)\<close> of Go's standard library: the loop \<open>for i < j\<close> with the midpoint
  \<open>h = int(uint(i+j) >> 1)\<close>.  Indices are natural numbers here; \<open>i + j\<close> does not
  overflow for slice lengths.
\<close>

function sort_Search_loop :: "(nat \<Rightarrow> bool) \<Rightarrow> nat \<Rightarrow> nat \<Rightarrow> nat" where
  "sort_Search_loop f i j =
     (if i < j then
        (let h = (i + j) div 2 in
         if \<not> f h then sort_Search_loop f (h + 1) j else sort_Search_loop f i h)
      else i)"
  by pat_completeness auto
termination
  by (relation "measure (\<lambda>(f, i, j). j - i)") auto

declare sort_Search_loop.simps [simp del]

definition sort_Search :: "nat \<Rightarrow> (nat \<Rightarrow> bool) \<Rightarrow> nat" where
  "sort_Search n f = sort_Search_loop f 0 n"

text \<open>
  \<open>search.Search\<close>.  \<open>json.Unmarshal\<close> into an \<open>EvalRecord\<close> is a parameter
  (\<open>unmarshal\<close>): it belongs to Go's standard library.
\<close>

definition Search :: "(string \<Rightarrow> err + EvalRecord) \<Rightarrow> string \<Rightarrow> string \<Rightarrow> err + EvalRecord" where
  "Search unmarshal data targetFEN =
     (let lines = splitLines data in
      if length lines = 0 then Inl SearchErrNotFound
      else
        let idx = sort_Search (length lines) (\<lambda>i. extractFEN (lines ! i) \<ge> targetFEN) in
        if idx \<ge> length lines then Inl SearchErrNotFound
        else
          let fen = extractFEN (lines ! idx) in
          if fen \<noteq> targetFEN then Inl SearchErrNotFound
          else (case unmarshal (lines ! idx) of
                  Inl e \<Rightarrow> Inl (Wrap ''parsing eval record'' e)
                | Inr record \<Rightarrow> Inr record))"

text \<open>A small shard line and a decoder standing in for \<open>json.Unmarshal\<close> in examples.\<close>

definition example_line :: "string \<Rightarrow> string" where
  "example_line f = fen_prefix @ f @ [dquote]"

definition example_unmarshal :: "string \<Rightarrow> err + EvalRecord" where
  "example_unmarshal l = Inr \<lparr>rec_FEN = extractFEN l, rec_Evals = []\<rparr>"

text \<open>Splitting on every newline byte, keeping empty pieces (the specification's step 1).\<close>

fun split_nl :: "string \<Rightarrow> string list" where
  "split_nl [] = [[]]"
| "split_nl (c # cs) =
     (if c = newline then [] # split_nl cs
      else (case split_nl cs of l # ls \<Rightarrow> (c # l) # ls | [] \<Rightarrow> [[c]]))"

lemma split_nl_nonempty: "split_nl s \<noteq> []"
  by (induction s) (auto split: list.splits)

lemma IndexByte_Some_split:
  "IndexByte s c = Some i \<Longrightarrow> s = take i s @ c # drop (Suc i) s \<and> c \<notin> set (take i s)"
  using IndexByte_Some_D [of s c i] id_take_nth_drop [of i s] by auto

lemma split_nl_fresh: "newline \<notin> set u \<Longrightarrow> split_nl u = [u]"
  by (induction u) auto

lemma split_nl_append: "newline \<notin> set u \<Longrightarrow> split_nl (u @ newline # r) = u # split_nl r"
  by (induction u) auto

lemma splitLines_filter: "splitLines data = filter (\<lambda>l. l \<noteq> []) (split_nl data)"
proof (induction data rule: splitLines.induct)
  case (1 data)
  show ?case
  proof (cases "data = []")
    case True
    then show ?thesis by (simp add: splitLines.simps)
  next
    case ne: False
    show ?thesis
    proof (cases "IndexByte data newline")
      case None
      then have "newline \<notin> set data" by (simp add: IndexByte_None_iff)
      then have "split_nl data = [data]" by (rule split_nl_fresh)
      with ne None show ?thesis by (simp add: splitLines.simps [of data])
    next
      case (Some idx)
      from IndexByte_Some_split [OF Some]
      have d: "data = take idx data @ newline # drop (Suc idx) data"
        and f: "newline \<notin> set (take idx data)" by simp_all
      have "split_nl data = take idx data # split_nl (drop (Suc idx) data)"
        using split_nl_append [OF f, of "drop (Suc idx) data"] d by simp
      moreover have "splitLines (drop (idx + 1) data)
          = filter (\<lambda>l. l \<noteq> []) (split_nl (drop (idx + 1) data))"
        using "1.IH" [OF ne Some] .
      ultimately show ?thesis using ne Some by (simp add: splitLines.simps [of data])
    qed
  qed
qed

lemma sort_Search_loop_correct:
  assumes "\<forall>a b. a \<le> b \<and> b < n \<and> f a \<longrightarrow> f b"
    and "i \<le> j" and "j \<le> n"
    and "\<forall>k<i. \<not> f k" and "\<forall>k. j \<le> k \<and> k < n \<longrightarrow> f k"
  shows "i \<le> sort_Search_loop f i j \<and> sort_Search_loop f i j \<le> j
     \<and> (\<forall>k < sort_Search_loop f i j. \<not> f k)
     \<and> (\<forall>k. sort_Search_loop f i j \<le> k \<and> k < n \<longrightarrow> f k)"
  using assms
proof (induction f i j rule: sort_Search_loop.induct)
  case (1 f i j)
  note mono = "1.prems"(1)
  show ?case
  proof (cases "i < j")
    case False
    with "1.prems" have "i = j" by simp
    with "1.prems" show ?thesis by (simp add: sort_Search_loop.simps [of f j j])
  next
    case lt: True
    define h where "h = (i + j) div 2"
    have hb: "i \<le> h" "h < j" using lt by (simp_all add: h_def)
    have hn: "h < n" using hb(2) "1.prems"(3) by simp
    show ?thesis
    proof (cases "f h")
      case False
      have lo: "\<forall>k<h + 1. \<not> f k"
      proof (intro allI impI)
        fix k assume "k < h + 1"
        then have "k \<le> h" by simp
        with mono hn False show "\<not> f k" by blast
      qed
      have ih: "h + 1 \<le> sort_Search_loop f (h + 1) j \<and> sort_Search_loop f (h + 1) j \<le> j
         \<and> (\<forall>k < sort_Search_loop f (h + 1) j. \<not> f k)
         \<and> (\<forall>k. sort_Search_loop f (h + 1) j \<le> k \<and> k < n \<longrightarrow> f k)"
        using "1.IH"(1) [OF lt h_def False mono _ "1.prems"(3) lo "1.prems"(5)] hb by simp
      have "sort_Search_loop f i j = sort_Search_loop f (h + 1) j"
        using lt False by (simp add: sort_Search_loop.simps [of f i j] h_def Let_def)
      with ih hb show ?thesis by simp
    next
      case True
      have hi: "\<forall>k. h \<le> k \<and> k < n \<longrightarrow> f k"
        using mono True by blast
      have ih: "i \<le> sort_Search_loop f i h \<and> sort_Search_loop f i h \<le> h
         \<and> (\<forall>k < sort_Search_loop f i h. \<not> f k)
         \<and> (\<forall>k. sort_Search_loop f i h \<le> k \<and> k < n \<longrightarrow> f k)"
        using "1.IH"(2) [OF lt h_def _ mono hb(1) _ "1.prems"(4) hi] True hn by simp
      have "sort_Search_loop f i j = sort_Search_loop f i h"
        using lt True by (simp add: sort_Search_loop.simps [of f i j] h_def Let_def)
      with ih hb show ?thesis by simp
    qed
  qed
qed


lemma sort_Search_least:
  assumes "\<forall>a b. a \<le> b \<and> b < n \<and> f a \<longrightarrow> f b"
  shows "sort_Search n f \<le> n
     \<and> (\<forall>k < sort_Search n f. \<not> f k)
     \<and> (\<forall>k. sort_Search n f \<le> k \<and> k < n \<longrightarrow> f k)"
proof -
  have a: "(0::nat) \<le> n" and b: "n \<le> n" by simp_all
  have c: "\<forall>k<0::nat. \<not> f k" by simp
  have d: "\<forall>k. n \<le> k \<and> k < n \<longrightarrow> f k" by auto
  from sort_Search_loop_correct [OF assms a b c d]
  show ?thesis unfolding sort_Search_def by blast
qed


lemma sort_Search_loop_done: "\<not> i < j \<Longrightarrow> sort_Search_loop f i j = i"
  by (subst sort_Search_loop.simps) simp

lemma sort_Search_loop_right:
  "i < j \<Longrightarrow> \<not> f ((i + j) div 2) \<Longrightarrow>
   sort_Search_loop f i j = sort_Search_loop f ((i + j) div 2 + 1) j"
  by (subst sort_Search_loop.simps) (simp add: Let_def)

lemma sort_Search_loop_left:
  "i < j \<Longrightarrow> f ((i + j) div 2) \<Longrightarrow>
   sort_Search_loop f i j = sort_Search_loop f i ((i + j) div 2)"
  by (subst sort_Search_loop.simps) (simp add: Let_def)

lemma sorted_fen_mono:
  assumes "sorted (map extractFEN ls)"
  shows "\<forall>a b. a \<le> b \<and> b < length ls \<and> t \<le> extractFEN (ls ! a) \<longrightarrow> t \<le> extractFEN (ls ! b)"
proof (intro allI impI)
  fix a b
  assume h: "a \<le> b \<and> b < length ls \<and> t \<le> extractFEN (ls ! a)"
  then have "map extractFEN ls ! a \<le> map extractFEN ls ! b"
    using assms by (intro sorted_nth_mono) simp_all
  with h have "extractFEN (ls ! a) \<le> extractFEN (ls ! b)" by simp
  with h show "t \<le> extractFEN (ls ! b)" by (meson order_trans)
qed

lemma extractFEN_example_line_a: "extractFEN (example_line ''a'') = ''a''"
  by (simp add: extractFEN_def example_line_def fen_prefix_def dquote_def HasPrefix_def)

lemma extractFEN_example_line_b: "extractFEN (example_line ''b'') = ''b''"
  by (simp add: extractFEN_def example_line_def fen_prefix_def dquote_def HasPrefix_def)

lemma splitLines_example:
  "splitLines (example_line ''a'' @ [newline, newline] @ example_line ''b'' @ [newline])
     = [example_line ''a'', example_line ''b'']"
  by (simp add: splitLines_filter example_line_def fen_prefix_def dquote_def newline_def)

lemma sort_Search_example:
  "sort_Search (length [example_line ''a'', example_line ''b''])
     (\<lambda>i. ''b'' \<le> extractFEN ([example_line ''a'', example_line ''b''] ! i)) = 1"
proof -
  let ?f = "\<lambda>i. ''b'' \<le> extractFEN ([example_line ''a'', example_line ''b''] ! i)"
  have f1: "?f 1" by (simp add: extractFEN_example_line_b)
  have f0: "\<not> ?f 0" by (simp add: extractFEN_example_line_a)
  have "sort_Search_loop ?f 0 2 = sort_Search_loop ?f 0 1"
    using sort_Search_loop_left [of 0 2 ?f] f1 by simp
  also have "\<dots> = sort_Search_loop ?f 1 1"
    using sort_Search_loop_right [of 0 1 ?f] f0 by simp
  also have "\<dots> = 1" by (simp add: sort_Search_loop_done)
  finally have "sort_Search_loop ?f 0 (Suc (Suc 0)) = 1" by (simp add: numeral_2_eq_2)
  then show ?thesis by (simp add: sort_Search_def)
qed

text \<open>
  Claim C1.  For a shard whose non-empty lines are sorted ascending (byte-wise) by
  extracted fingerprint, and any target: \<open>Search\<close> works on the lines of the shard with
  the empty ones dropped; the index it binary-searches is the smallest one whose
  extracted fingerprint is at least the target (all earlier lines are strictly below the
  target, all later ones at or above it); it returns \<open>ErrNotFound\<close> when that index is
  past the end or the fingerprint there differs from the target; otherwise the result is
  that of decoding the matched line, and no other line, with the JSON decoder: the
  decoded record, or the decoder's error wrapped.  The extracted fingerprint is the bytes
  between the first occurrence of the prefix and the next double quote, and empty when
  the prefix does not occur.
\<close>

theorem Search_sorted_shard:
  assumes "sorted (map extractFEN (splitLines data))"
  shows "splitLines data = filter (\<lambda>l. l \<noteq> []) (split_nl data)
    \<and> (let lines = splitLines data;
            idx = sort_Search (length lines) (\<lambda>i. target \<le> extractFEN (lines ! i))
        in idx \<le> length lines
         \<and> (\<forall>i<idx. extractFEN (lines ! i) < target)
         \<and> (\<forall>i. idx \<le> i \<and> i < length lines \<longrightarrow> target \<le> extractFEN (lines ! i))
         \<and> Search unmarshal data target =
             (if idx \<ge> length lines \<or> extractFEN (lines ! idx) \<noteq> target
              then Inl SearchErrNotFound
              else (case unmarshal (lines ! idx) of
                      Inl e \<Rightarrow> Inl (Wrap ''parsing eval record'' e)
                    | Inr r \<Rightarrow> Inr r)))
    \<and> (\<forall>pre fen r. dquote \<notin> set fen
          \<and> first_occurrence (pre @ fen_prefix @ fen @ dquote # r) fen_prefix (length pre) \<longrightarrow>
          extractFEN (pre @ fen_prefix @ fen @ dquote # r) = fen)
    \<and> (\<forall>line. (\<forall>i. \<not> occurs_at line fen_prefix i) \<longrightarrow> extractFEN line = [])"
proof -
  define ls where "ls = splitLines data"
  define f where "f = (\<lambda>i. target \<le> extractFEN (ls ! i))"
  define idx where "idx = sort_Search (length ls) f"
  have so: "sorted (map extractFEN ls)" using assms unfolding ls_def .
  have mono: "\<forall>a b. a \<le> b \<and> b < length ls \<and> f a \<longrightarrow> f b"
    unfolding f_def using so by (rule sorted_fen_mono)
  have all: "idx \<le> length ls
     \<and> (\<forall>k < idx. \<not> f k)
     \<and> (\<forall>k. idx \<le> k \<and> k < length ls \<longrightarrow> f k)"
    unfolding idx_def using mono by (rule sort_Search_least)
  from all have least1: "idx \<le> length ls" by (rule conjunct1)
  from all have least2: "\<forall>k < idx. \<not> f k" by blast
  from all have least3: "\<forall>k. idx \<le> k \<and> k < length ls \<longrightarrow> f k" by blast
  have below: "\<forall>i<idx. extractFEN (ls ! i) < target"
  proof (intro allI impI)
    fix i assume "i < idx"
    with least2 have "\<not> f i" by blast
    then show "extractFEN (ls ! i) < target" unfolding f_def by (simp add: not_le)
  qed
  have above: "\<forall>i. idx \<le> i \<and> i < length ls \<longrightarrow> target \<le> extractFEN (ls ! i)"
    using least3 unfolding f_def .
  have res: "Search unmarshal data target =
       (if idx \<ge> length ls \<or> extractFEN (ls ! idx) \<noteq> target
        then Inl SearchErrNotFound
        else (case unmarshal (ls ! idx) of
                Inl e \<Rightarrow> Inl (Wrap ''parsing eval record'' e)
              | Inr r \<Rightarrow> Inr r))"
  proof (cases "length ls = 0")
    case True
    with least1 have "idx = 0" by simp
    with True show ?thesis by (simp add: Search_def ls_def [symmetric])
  next
    case False
    then show ?thesis
      by (simp add: Search_def Let_def ls_def [symmetric] f_def [symmetric] idx_def [symmetric]
          split: sum.splits)
  qed
  have sp: "splitLines data = filter (\<lambda>l. l \<noteq> []) (split_nl data)"
    by (rule splitLines_filter)
  have ex1: "\<forall>pre fen r. dquote \<notin> set fen
          \<and> first_occurrence (pre @ fen_prefix @ fen @ dquote # r) fen_prefix (length pre) \<longrightarrow>
          extractFEN (pre @ fen_prefix @ fen @ dquote # r) = fen"
  proof (intro allI impI)
    fix pre fen r
    assume a: "dquote \<notin> set fen
          \<and> first_occurrence (pre @ fen_prefix @ fen @ dquote # r) fen_prefix (length pre)"
    then have q: "dquote \<notin> set fen"
      and f: "\<forall>j<length pre. \<not> occurs_at (pre @ fen_prefix @ fen @ dquote # r) fen_prefix j"
      by (simp_all add: first_occurrence_def)
    from q f show "extractFEN (pre @ fen_prefix @ fen @ dquote # r) = fen"
      by (rule extractFEN_found)
  qed
  have ex2: "\<forall>line. (\<forall>i. \<not> occurs_at line fen_prefix i) \<longrightarrow> extractFEN line = []"
  proof (intro allI impI)
    fix line
    assume "\<forall>i. \<not> occurs_at line fen_prefix i"
    then show "extractFEN line = []" by (rule extractFEN_absent)
  qed
  from sp have sp': "ls = filter (\<lambda>l. l \<noteq> []) (split_nl data)" by (simp add: ls_def)
  show ?thesis
    unfolding Let_def ls_def [symmetric] f_def [symmetric] idx_def [symmetric]
    using sp' least1 below above res ex1 ex2 by - (intro conjI; assumption)
qed

theorem Search_sorted_shard_witness:
  "sorted (map extractFEN
      (splitLines (example_line ''a'' @ [newline, newline] @ example_line ''b'' @ [newline])))
   \<and> Search example_unmarshal
        (example_line ''a'' @ [newline, newline] @ example_line ''b'' @ [newline]) ''b''
      = Inr \<lparr>rec_FEN = ''b'', rec_Evals = []\<rparr>"
proof -
  let ?D = "example_line ''a'' @ [newline, newline] @ example_line ''b'' @ [newline]"
  have so: "sorted (map extractFEN (splitLines ?D))"
    unfolding splitLines_example
    by (simp add: extractFEN_example_line_a extractFEN_example_line_b)
  have "Search example_unmarshal ?D ''b'' =
      (if 1 \<ge> length [example_line ''a'', example_line ''b'']
          \<or> extractFEN ([example_line ''a'', example_line ''b''] ! 1) \<noteq> ''b''
       then Inl SearchErrNotFound
       else (case example_unmarshal ([example_line ''a'', example_line ''b''] ! 1) of
               Inl e \<Rightarrow> Inl (Wrap ''parsing eval record'' e)
             | Inr r \<Rightarrow> Inr r))"
    using Search_sorted_shard [OF so, of "''b''" example_unmarshal]
    unfolding Let_def splitLines_example sort_Search_example by blast
  then have "Search example_unmarshal ?D ''b'' = Inr \<lparr>rec_FEN = ''b'', rec_Evals = []\<rparr>"
    by (simp add: extractFEN_example_line_b example_unmarshal_def)
  with so show ?thesis by blast
qed

section \<open>Score stringification (eval.go)\<close>

text \<open>
  Go's \<open>int\<close> is a 64-bit two's complement integer on the supported platforms; values are
  kept as mathematical integers in \<open>[-2^63, 2^63)\<close> and \<open>wrap64\<close> is written where an
  operation of the source can leave that range (here: unary minus).  \<open>/\<close> and \<open>%\<close>
  truncate towards zero.
\<close>

definition wrap64 :: "int \<Rightarrow> int" where
  "wrap64 x = (x + 2 ^ 63) mod 2 ^ 64 - 2 ^ 63"

definition go_quot :: "int \<Rightarrow> int \<Rightarrow> int" where
  "go_quot a b = sgn a * sgn b * (\<bar>a\<bar> div \<bar>b\<bar>)"

definition go_rem :: "int \<Rightarrow> int \<Rightarrow> int" where
  "go_rem a b = a - b * go_quot a b"

text \<open>\<open>strconv.Itoa\<close>: decimal digits, with a leading minus sign for negative values.\<close>

definition digit_char :: "nat \<Rightarrow> char" where
  "digit_char d = ''0123456789'' ! d"

function nat_to_dec :: "nat \<Rightarrow> string" where
  "nat_to_dec n = (if n < 10 then [digit_char n] else nat_to_dec (n div 10) @ [digit_char (n mod 10)])"
  by pat_completeness auto
termination
  by (relation "measure id") auto

declare nat_to_dec.simps [simp del]

definition Itoa :: "int \<Rightarrow> string" where
  "Itoa i = (if i < 0 then CHR ''-'' # nat_to_dec (nat (- i)) else nat_to_dec (nat i))"

text \<open>The public \<open>Eval\<close> and \<open>PV\<close> types (eval.go); a nil pointer is \<open>None\<close>.\<close>

record PV =
  pv_Centipawns :: "int option"
  pv_Mate :: "int option"
  pv_Line :: string

record Eval =
  eval_FEN :: string
  eval_Depth :: int
  eval_Knodes :: int
  eval_PVs :: "PV list"

text \<open>\<open>(*PV).Score\<close>.\<close>

definition PV_Score :: "PV \<Rightarrow> string" where
  "PV_Score pv =
     (case pv_Mate pv of
        Some m \<Rightarrow> ''#'' @ Itoa m
      | None \<Rightarrow>
          (case pv_Centipawns pv of
             None \<Rightarrow> ''?''
           | Some c \<Rightarrow>
               (let sign = (if c < 0 then ''-'' else ''+'');
                    cp = (if c < 0 then wrap64 (- c) else c);
                    whole = go_quot cp 100;
                    frac = go_rem cp 100
                in if frac < 10 then sign @ Itoa whole @ ''.0'' @ Itoa frac
                   else sign @ Itoa whole @ ''.'' @ Itoa frac)))"

definition BestPV :: "Eval \<Rightarrow> PV option" where
  "BestPV e = (if length (eval_PVs e) = 0 then None else Some (eval_PVs e ! 0))"

definition Eval_Score :: "Eval \<Rightarrow> string" where
  "Eval_Score e = (case BestPV e of None \<Rightarrow> ''?'' | Some pv \<Rightarrow> PV_Score pv)"

text \<open>A PV carrying only a centipawn score, and one carrying only a mate distance.\<close>

definition cp_pv :: "int \<Rightarrow> PV" where
  "cp_pv c = \<lparr>pv_Centipawns = Some c, pv_Mate = None, pv_Line = []\<rparr>"
definition mate_pv :: "int \<Rightarrow> PV" where
  "mate_pv m = \<lparr>pv_Centipawns = None, pv_Mate = Some m, pv_Line = []\<rparr>"

lemma nat_to_dec_small: "n < 10 \<Longrightarrow> nat_to_dec n = [digit_char n]"
  by (subst nat_to_dec.simps) simp

lemma nat_to_dec_step:
  "\<not> n < 10 \<Longrightarrow> nat_to_dec n = nat_to_dec (n div 10) @ [digit_char (n mod 10)]"
  by (subst nat_to_dec.simps) simp

lemma nat_to_dec_two_digits:
  assumes "10 \<le> n" and "n < 100"
  shows "nat_to_dec n = [digit_char (n div 10), digit_char (n mod 10)]"
proof -
  from assms have "n div 10 < 10" by simp
  then have "nat_to_dec (n div 10) = [digit_char (n div 10)]" by (rule nat_to_dec_small)
  moreover from assms have "\<not> n < 10" by simp
  ultimately show ?thesis by (simp add: nat_to_dec_step)
qed

lemma wrap64_id: "- (2 ^ 63) \<le> x \<Longrightarrow> x < 2 ^ 63 \<Longrightarrow> wrap64 x = x"
  by (simp add: wrap64_def)

lemma go_quot_nonneg: "0 \<le> a \<Longrightarrow> go_quot a 100 = a div 100"
  by (cases "a = 0") (simp_all add: go_quot_def)

lemma go_rem_nonneg: "0 \<le> a \<Longrightarrow> go_rem a 100 = a mod 100"
  by (simp add: go_rem_def go_quot_nonneg minus_mult_div_eq_mod)

lemma PV_Score_mate: "pv_Mate pv = Some m \<Longrightarrow> PV_Score pv = ''#'' @ Itoa m"
  by (simp add: PV_Score_def)

lemma PV_Score_absent: "pv_Mate pv = None \<Longrightarrow> pv_Centipawns pv = None \<Longrightarrow> PV_Score pv = ''?''"
  by (simp add: PV_Score_def)

lemma Itoa_frac:
  assumes "0 \<le> f" and "f < 100"
  shows "(if f < 10 then ''.0'' @ Itoa f else ''.'' @ Itoa f)
     = ''.'' @ [digit_char (nat f div 10), digit_char (nat f mod 10)]"
proof (cases "f < 10")
  case True
  with assms have "nat f < 10" by simp
  then have "nat_to_dec (nat f) = [digit_char (nat f)]" and "nat f div 10 = 0" and "nat f mod 10 = nat f"
    by (simp_all add: nat_to_dec_small)
  with True assms show ?thesis by (simp add: Itoa_def digit_char_def)
next
  case False
  with assms have "10 \<le> nat f" "nat f < 100" by simp_all
  then have "nat_to_dec (nat f) = [digit_char (nat f div 10), digit_char (nat f mod 10)]"
    by (rule nat_to_dec_two_digits)
  with False assms show ?thesis by (simp add: Itoa_def)
qed

text \<open>
  Away from the least 64-bit integer, a centipawn value renders as its sign, the pawns
  \<open>\<bar>c\<bar> div 100\<close> in decimal, a point, and exactly two digits for \<open>\<bar>c\<bar> mod 100\<close>.
\<close>

lemma PV_Score_centipawns:
  assumes "pv_Mate pv = None" and "pv_Centipawns pv = Some c"
    and lo: "- (2 ^ 63) < c" and hi: "c < 2 ^ 63"
  shows "PV_Score pv =
     (if c < 0 then ''-'' else ''+'') @ Itoa (\<bar>c\<bar> div 100) @ ''.''
       @ [digit_char (nat (\<bar>c\<bar> mod 100) div 10), digit_char (nat (\<bar>c\<bar> mod 100) mod 10)]"
proof -
  define a where "a = (if c < 0 then wrap64 (- c) else c)"
  have a: "a = \<bar>c\<bar>"
  proof (cases "c < 0")
    case True
    with lo have "- (2 ^ 63) \<le> - c" "- c < 2 ^ 63" by simp_all
    then have "wrap64 (- c) = - c" by (rule wrap64_id)
    with True show ?thesis by (simp add: a_def)
  next
    case False
    then show ?thesis by (simp add: a_def)
  qed
  then have nn: "0 \<le> a" by simp
  have q: "go_quot a 100 = \<bar>c\<bar> div 100" using go_quot_nonneg [OF nn] a by simp
  have r: "go_rem a 100 = \<bar>c\<bar> mod 100" using go_rem_nonneg [OF nn] a by simp
  have f: "0 \<le> \<bar>c\<bar> mod 100" "\<bar>c\<bar> mod 100 < 100" by simp_all
  have "PV_Score pv = (if c < 0 then ''-'' else ''+'') @ Itoa (\<bar>c\<bar> div 100)
      @ (if \<bar>c\<bar> mod 100 < 10 then ''.0'' @ Itoa (\<bar>c\<bar> mod 100) else ''.'' @ Itoa (\<bar>c\<bar> mod 100))"
    using assms(1,2) q r by (simp add: PV_Score_def Let_def a_def [symmetric])
  also have "(if \<bar>c\<bar> mod 100 < 10 then ''.0'' @ Itoa (\<bar>c\<bar> mod 100) else ''.'' @ Itoa (\<bar>c\<bar> mod 100))
      = ''.'' @ [digit_char (nat (\<bar>c\<bar> mod 100) div 10), digit_char (nat (\<bar>c\<bar> mod 100) mod 10)]"
    using f by (rule Itoa_frac)
  finally show ?thesis by simp
qed

lemma wrap64_min: "wrap64 9223372036854775808 = - 9223372036854775808"
  by (simp add: wrap64_def)

lemma go_quot_min: "go_quot (- 9223372036854775808) 100 = - 92233720368547758"
  by (simp add: go_quot_def)

lemma go_rem_min: "go_rem (- 9223372036854775808) 100 = - 8"
  by (simp add: go_rem_def go_quot_min)

lemma Itoa_min_whole: "Itoa (- 92233720368547758) = ''-92233720368547758''"
  by (simp add: Itoa_def nat_to_dec_small nat_to_dec_step digit_char_def)

lemma PV_Score_min_int:
  "PV_Score (cp_pv (- 9223372036854775808)) = ''--92233720368547758.0-8''"
  by (simp add: PV_Score_def cp_pv_def Let_def wrap64_min go_quot_min go_rem_min Itoa_min_whole)
     (simp add: Itoa_def nat_to_dec_small digit_char_def)

lemma PV_Score_examples:
  "PV_Score (cp_pv 125) = ''+1.25''"
  "PV_Score (cp_pv (- 50)) = ''-0.50''"
  "PV_Score (cp_pv 0) = ''+0.00''"
  "PV_Score (cp_pv 5) = ''+0.05''"
  "PV_Score (mate_pv 3) = ''#3''"
  "PV_Score (mate_pv (- 5)) = ''#-5''"
  "PV_Score \<lparr>pv_Centipawns = None, pv_Mate = None, pv_Line = []\<rparr> = ''?''"
  "Eval_Score \<lparr>eval_FEN = [], eval_Depth = 0, eval_Knodes = 0, eval_PVs = []\<rparr> = ''?''"
  by (simp_all add: PV_Score_def cp_pv_def mate_pv_def Eval_Score_def BestPV_def Let_def
      wrap64_def go_quot_def go_rem_def Itoa_def nat_to_dec_small nat_to_dec_step digit_char_def)

text \<open>
  Claim C6.  The seven sample scores of the specification render as stated
  (\<open>+1.25\<close>, \<open>-0.50\<close>, \<open>+0.00\<close>, \<open>+0.05\<close>, \<open>#3\<close>, \<open>#-5\<close>, \<open>?\<close>).  The general rule,
  sign followed by the pawn value with exactly two decimals, is what \<open>Score\<close> computes
  for every centipawn value but one: at the least 64-bit integer the negation
  \<open>cp = -cp\<close> overflows, \<open>cp\<close> stays negative, and the rendering has two minus signs,
  one decimal digit position and a signed fraction.
\<close>

theorem PV_Score_samples_and_min_int:
  "PV_Score (cp_pv 125) = ''+1.25''
   \<and> PV_Score (cp_pv (- 50)) = ''-0.50''
   \<and> PV_Score (cp_pv 0) = ''+0.00''
   \<and> PV_Score (cp_pv 5) = ''+0.05''
   \<and> PV_Score (mate_pv 3) = ''#3''
   \<and> PV_Score (mate_pv (- 5)) = ''#-5''
   \<and> PV_Score \<lparr>pv_Centipawns = None, pv_Mate = None, pv_Line = []\<rparr> = ''?''
   \<and> PV_Score (cp_pv (- 9223372036854775808)) = ''--92233720368547758.0-8''"
  using PV_Score_examples PV_Score_min_int by (intro conjI)

section \<open>FEN parsing (internal/fen)\<close>

text \<open>
  \<open>strings.Fields\<close> splits around runs of white space as \<open>unicode.IsSpace\<close> defines it.
  On the bytes of a Go string the white-space runes are the six ASCII ones and the
  UTF-8 encodings of U+0085, U+00A0, U+1680, U+2000 to U+200A, U+2028, U+2029, U+202F,
  U+205F and U+3000.  Each encoding starts with a byte that is never a continuation
  byte, and Go's decoder consumes one byte at an invalid sequence, so a white-space rune
  is decoded wherever its encoding stands.  \<open>space_width s\<close> is the number of bytes of
  the white-space rune at the head of \<open>s\<close>, and \<open>0\<close> when there is none.
\<close>

fun space_width :: "string \<Rightarrow> nat" where
  "space_width [] = 0"
| "space_width (c # cs) =
     (if c \<in> set [CHR 0x09, CHR 0x0A, CHR 0x0B, CHR 0x0C, CHR 0x0D, CHR 0x20] then 1
      else if c = CHR 0xC2 then
        (case cs of
           d # _ \<Rightarrow> (if d = CHR 0x85 \<or> d = CHR 0xA0 then 2 else 0)
         | [] \<Rightarrow> 0)
      else if c = CHR 0xE1 then
        (if take 2 cs = [CHR 0x9A, CHR 0x80] then 3 else 0)
      else if c = CHR 0xE2 then
        (case cs of
           d # e # _ \<Rightarrow>
             (if d = CHR 0x80 \<and>
                 ((CHR 0x80 \<le> e \<and> e \<le> CHR 0x8A) \<or> e = CHR 0xA8 \<or> e = CHR 0xA9 \<or> e = CHR 0xAF)
              then 3
              else if d = CHR 0x81 \<and> e = CHR 0x9F then 3 else 0)
         | _ \<Rightarrow> 0)
      else if c = CHR 0xE3 then
        (if take 2 cs = [CHR 0x80, CHR 0x80] then 3 else 0)
      else 0)"

text \<open>
  \<open>Fields_from cur s\<close>: the fields of \<open>s\<close>, where \<open>cur\<close> is the field read so far.
\<close>

function Fields_from :: "string \<Rightarrow> string \<Rightarrow> string list" where
  "Fields_from cur [] = (if cur = [] then [] else [cur])"
| "Fields_from cur (c # cs) =
     (if space_width (c # cs) > 0
      then (if cur = [] then [] else [cur]) @ Fields_from [] (drop (space_width (c # cs)) (c # cs))
      else Fields_from (cur @ [c]) cs)"
  by pat_completeness auto
termination
  by (relation "measure (\<lambda>(cur, s). length s)") auto

definition Fields :: "string \<Rightarrow> string list" where
  "Fields s = Fields_from [] s"

text \<open>\<open>strings.Split(s, sep)\<close> for a one-byte separator: every piece, empty ones too.\<close>

fun Split :: "string \<Rightarrow> char \<Rightarrow> string list" where
  "Split [] sep = [[]]"
| "Split (c # cs) sep =
     (if c = sep then [] # Split cs sep
      else (case Split cs sep of l # ls \<Rightarrow> (c # l) # ls | [] \<Rightarrow> [[c]]))"

text \<open>\<open>strings.Join(elems, sep)\<close>.\<close>

fun Join :: "string list \<Rightarrow> string \<Rightarrow> string" where
  "Join [] sep = []"
| "Join [x] sep = x"
| "Join (x # y # ys) sep = x @ sep @ Join (y # ys) sep"

record Material =
  WhitePawns :: int
  WhiteKnights :: int
  WhiteBishops :: int
  WhiteRooks :: int
  WhiteQueens :: int
  BlackPawns :: int
  BlackKnights :: int
  BlackBishops :: int
  BlackRooks :: int
  BlackQueens :: int

definition Material_zero :: Material where
  "Material_zero = \<lparr>WhitePawns = 0, WhiteKnights = 0, WhiteBishops = 0, WhiteRooks = 0,
     WhiteQueens = 0, BlackPawns = 0, BlackKnights = 0, BlackBishops = 0, BlackRooks = 0,
     BlackQueens = 0\<rparr>"

text \<open>
  The \<open>switch\<close> of \<open>ParseMaterial\<close> on one character; \<open>None\<close> is the \<open>default\<close> branch.
  The source ranges over runes; a rune outside ASCII (and the replacement rune of an
  invalid byte) reaches \<open>default\<close>, as does each of its bytes here.
\<close>

definition count_piece :: "Material \<Rightarrow> char \<Rightarrow> Material option" where
  "count_piece m ch =
     (if ch = CHR ''P'' then Some (m\<lparr>WhitePawns := WhitePawns m + 1\<rparr>)
      else if ch = CHR ''N'' then Some (m\<lparr>WhiteKnights := WhiteKnights m + 1\<rparr>)
      else if ch = CHR ''B'' then Some (m\<lparr>WhiteBishops := WhiteBishops m + 1\<rparr>)
      else if ch = CHR ''R'' then Some (m\<lparr>WhiteRooks := WhiteRooks m + 1\<rparr>)
      else if ch = CHR ''Q'' then Some (m\<lparr>WhiteQueens := WhiteQueens m + 1\<rparr>)
      else if ch = CHR ''p'' then Some (m\<lparr>BlackPawns := BlackPawns m + 1\<rparr>)
      else if ch = CHR ''n'' then Some (m\<lparr>BlackKnights := BlackKnights m + 1\<rparr>)
      else if ch = CHR ''b'' then Some (m\<lparr>BlackBishops := BlackBishops m + 1\<rparr>)
      else if ch = CHR ''r'' then Some (m\<lparr>BlackRooks := BlackRooks m + 1\<rparr>)
      else if ch = CHR ''q'' then Some (m\<lparr>BlackQueens := BlackQueens m + 1\<rparr>)
      else if ch = CHR ''K'' \<or> ch = CHR ''k'' then Some m
      else if ch \<in> set ''/12345678'' then Some m
      else None)"

fun ParseMaterial_loop :: "Material \<Rightarrow> string \<Rightarrow> err + Material" where
  "ParseMaterial_loop m [] = Inr m"
| "ParseMaterial_loop m (ch # rest) =
     (case count_piece m ch of
        None \<Rightarrow> Inl ErrInvalidFEN
      | Some m' \<Rightarrow> ParseMaterial_loop m' rest)"

definition ParseMaterial :: "string \<Rightarrow> err + Material" where
  "ParseMaterial fen =
     (let parts = Fields fen in
      if length parts = 0 then Inl ErrInvalidFEN
      else ParseMaterial_loop Material_zero (parts ! 0))"

definition SideToMove :: "string \<Rightarrow> err + string" where
  "SideToMove fen =
     (let parts = Fields fen in
      if length parts < 2 then Inl ErrInvalidFEN
      else if parts ! 1 \<noteq> ''w'' \<and> parts ! 1 \<noteq> ''b'' then Inl ErrInvalidFEN
      else Inr (parts ! 1))"

text \<open>The inner loop of \<open>isValidPiecePlacement\<close>: the squares of one rank, \<open>None\<close> on an invalid character.\<close>

fun rank_squares :: "int \<Rightarrow> string \<Rightarrow> int option" where
  "rank_squares squares [] = Some squares"
| "rank_squares squares (ch # rest) =
     (if CHR ''1'' \<le> ch \<and> ch \<le> CHR ''8'' then rank_squares (squares + (int (of_char ch) - 48)) rest
      else if ch \<in> set ''PNBRQKpnbrqk'' then rank_squares (squares + 1) rest
      else None)"

fun ranks_valid :: "string list \<Rightarrow> bool" where
  "ranks_valid [] = True"
| "ranks_valid (rank # rest) =
     (case rank_squares 0 rank of
        None \<Rightarrow> False
      | Some squares \<Rightarrow> if squares \<noteq> 8 then False else ranks_valid rest)"

definition isValidPiecePlacement :: "string \<Rightarrow> bool" where
  "isValidPiecePlacement placement =
     (let ranks = Split placement CHR ''/'' in
      if length ranks \<noteq> 8 then False else ranks_valid ranks)"

definition Normalize :: "string \<Rightarrow> err + string" where
  "Normalize fen =
     (let parts = Fields fen in
      if length parts < 4 then Inl ErrInvalidFEN
      else if \<not> isValidPiecePlacement (parts ! 0) then Inl ErrInvalidFEN
      else if parts ! 1 \<noteq> ''w'' \<and> parts ! 1 \<noteq> ''b'' then Inl ErrInvalidFEN
      else Inr (Join (take 4 parts) '' ''))"

section \<open>Sharding strategies (internal/shard)\<close>

text \<open>
  The FNV-1a loop shared by \<open>hashFallback\<close> and \<open>fnv1a32\<close>, on \<open>uint32\<close>:
  \<open>h ^= uint32(s[i]); h *= 16777619\<close>.
\<close>

fun fnv_loop :: "32 word \<Rightarrow> string \<Rightarrow> 32 word" where
  "fnv_loop h [] = h"
| "fnv_loop h (c # cs) = fnv_loop ((h XOR of_nat (of_char c)) * 16777619) cs"

definition fnv1a32 :: "string \<Rightarrow> 32 word" where
  "fnv1a32 s = fnv_loop 2166136261 s"

text \<open>
  \<open>int(x % uint32(totalShards))\<close>: the conversion \<open>uint32(totalShards)\<close> keeps the low
  32 bits of the 64-bit \<open>int\<close>; a zero divisor is a run-time panic (\<open>None\<close>).
\<close>

definition mod_shards :: "32 word \<Rightarrow> int \<Rightarrow> int option" where
  "mod_shards x totalShards =
     (if (word_of_int totalShards :: 32 word) = 0 then None
      else Some (uint (x mod word_of_int totalShards)))"

definition hashFallback :: "string \<Rightarrow> int \<Rightarrow> int option" where
  "hashFallback s totalShards = mod_shards (fnv_loop 2166136261 s) totalShards"

text \<open>\<open>materialshard.Strategy.ShardID\<close>; \<open>material_id\<close> is the value of \<open>id\<close> before the reduction.\<close>

definition material_id :: "Material \<Rightarrow> string \<Rightarrow> 32 word" where
  "material_id mat side =
     (let id0 = (0 :: 32 word);
          id1 = id0 OR push_bit 0 (word_of_int (min (WhiteQueens mat) 7));
          id2 = id1 OR push_bit 3 (word_of_int (min (BlackQueens mat) 7));
          id3 = id2 OR push_bit 6 (word_of_int (min (WhiteRooks mat) 7));
          id4 = id3 OR push_bit 9 (word_of_int (min (BlackRooks mat) 7));
          whiteMinors = WhiteBishops mat + WhiteKnights mat;
          blackMinors = BlackBishops mat + BlackKnights mat;
          id5 = id4 OR push_bit 12 (word_of_int (min whiteMinors 7));
          id6 = id5 OR push_bit 15 (word_of_int (min blackMinors 7))
      in if side = ''b'' then id6 OR push_bit 18 1 else id6)"

definition material_ShardID :: "string \<Rightarrow> int \<Rightarrow> int option" where
  "material_ShardID fenStr totalShards =
     (case ParseMaterial fenStr of
        Inl e \<Rightarrow> hashFallback fenStr totalShards
      | Inr mat \<Rightarrow>
          (let side = (case SideToMove fenStr of Inl e \<Rightarrow> [] | Inr s \<Rightarrow> s)
           in mod_shards (material_id mat side) totalShards))"

text \<open>\<open>fnvshard.Strategy.ShardID\<close>.\<close>

definition fnv_ShardID :: "string \<Rightarrow> int \<Rightarrow> int option" where
  "fnv_ShardID fenStr totalShards =
     (let normalized = (case Normalize fenStr of Inl e \<Rightarrow> fenStr | Inr n \<Rightarrow> n)
      in mod_shards (fnv1a32 normalized) totalShards)"

text \<open>
  The 19-bit key of the specification's table, as a number: three bits for each of the
  six capped counts and one bit for the side to move.
\<close>

definition material_key :: "Material \<Rightarrow> bool \<Rightarrow> nat" where
  "material_key mat black =
     nat (min (WhiteQueens mat) 7)
     + 2 ^ 3 * nat (min (BlackQueens mat) 7)
     + 2 ^ 6 * nat (min (WhiteRooks mat) 7)
     + 2 ^ 9 * nat (min (BlackRooks mat) 7)
     + 2 ^ 12 * nat (min (WhiteBishops mat + WhiteKnights mat) 7)
     + 2 ^ 15 * nat (min (BlackBishops mat + BlackKnights mat) 7)
     + 2 ^ 18 * (if black then 1 else 0)"


text \<open>All ten counts are non-negative: what \<open>ParseMaterial\<close> returns.\<close>

definition Material_nonneg :: "Material \<Rightarrow> bool" where
  "Material_nonneg m \<longleftrightarrow>
     0 \<le> WhitePawns m \<and> 0 \<le> WhiteKnights m \<and> 0 \<le> WhiteBishops m \<and> 0 \<le> WhiteRooks m
     \<and> 0 \<le> WhiteQueens m \<and> 0 \<le> BlackPawns m \<and> 0 \<le> BlackKnights m \<and> 0 \<le> BlackBishops m
     \<and> 0 \<le> BlackRooks m \<and> 0 \<le> BlackQueens m"

lemma count_piece_nonneg:
  "Material_nonneg m \<Longrightarrow> count_piece m ch = Some m' \<Longrightarrow> Material_nonneg m'"
  unfolding count_piece_def
  by (simp split: if_splits; simp add: Material_nonneg_def; fastforce)

lemma ParseMaterial_loop_nonneg:
  "Material_nonneg m \<Longrightarrow> ParseMaterial_loop m s = Inr m' \<Longrightarrow> Material_nonneg m'"
proof (induction s arbitrary: m)
  case Nil
  then show ?case by simp
next
  case (Cons ch rest)
  from Cons.prems(2) obtain m1 where m1: "count_piece m ch = Some m1"
    and r: "ParseMaterial_loop m1 rest = Inr m'"
    by (auto split: option.splits)
  from count_piece_nonneg [OF Cons.prems(1) m1] have "Material_nonneg m1" .
  then show ?case using r by (rule Cons.IH)
qed

lemma ParseMaterial_nonneg: "ParseMaterial s = Inr mat \<Longrightarrow> Material_nonneg mat"
proof -
  assume a: "ParseMaterial s = Inr mat"
  have z: "Material_nonneg Material_zero" by (simp add: Material_nonneg_def Material_zero_def)
  from a have "ParseMaterial_loop Material_zero (Fields s ! 0) = Inr mat"
    by (simp add: ParseMaterial_def Let_def split: if_splits)
  with z show ?thesis by (rule ParseMaterial_loop_nonneg)
qed

lemma or_push_bit_nat:
  fixes a b :: nat
  assumes "a < 2 ^ n"
  shows "a OR push_bit n b = a + 2 ^ n * b"
proof -
  from assms have t: "take_bit n a = a" by (rule take_bit_nat_eq_self)
  have "take_bit n a AND push_bit n b = 0"
    by (simp add: bit_eq_iff bit_simps)
  with t have "a AND push_bit n b = 0" by simp
  then have "a + push_bit n b = a OR push_bit n b" by (rule disjunctive_add_eq_or)
  then show ?thesis by (simp add: push_bit_eq_mult mult.commute)
qed

lemma word_or_push_bit_of_nat:
  fixes a b :: nat
  assumes "a < 2 ^ n"
  shows "(of_nat a :: 32 word) OR push_bit n (of_nat b) = of_nat (a + 2 ^ n * b)"
proof -
  have "(of_nat a :: 32 word) OR push_bit n (of_nat b) = of_nat (a OR push_bit n b)"
    by (simp add: of_nat_or_eq of_nat_push_bit)
  also have "a OR push_bit n b = a + 2 ^ n * b" using assms by (rule or_push_bit_nat)
  finally show ?thesis .
qed

lemma capped_count:
  assumes "0 \<le> x"
  shows "(word_of_int (min x 7) :: 32 word) = of_nat (nat (min x 7))" and "nat (min x 7) < 8"
proof -
  from assms have "0 \<le> min x 7" by simp
  then show "(word_of_int (min x 7) :: 32 word) = of_nat (nat (min x 7))"
    by (rule word_of_int_nat)
  show "nat (min x 7) < 8" by simp
qed

lemma material_id_packs:
  fixes a0 a1 a2 a3 a4 a5 s :: nat
  assumes "a0 < 8" "a1 < 8" "a2 < 8" "a3 < 8" "a4 < 8" "a5 < 8"
  shows "((((((0 :: 32 word) OR push_bit 0 (of_nat a0)) OR push_bit 3 (of_nat a1))
            OR push_bit 6 (of_nat a2)) OR push_bit 9 (of_nat a3))
            OR push_bit 12 (of_nat a4)) OR push_bit 15 (of_nat a5)
         = of_nat (a0 + 2 ^ 3 * a1 + 2 ^ 6 * a2 + 2 ^ 9 * a3 + 2 ^ 12 * a4 + 2 ^ 15 * a5)"
    and "a0 + 2 ^ 3 * a1 + 2 ^ 6 * a2 + 2 ^ 9 * a3 + 2 ^ 12 * a4 + 2 ^ 15 * a5 < 2 ^ 18"
proof -
  have b1: "a0 < 2 ^ 3" using assms by simp
  have b2: "a0 + 2 ^ 3 * a1 < 2 ^ 6" using assms by simp
  have b3: "a0 + 2 ^ 3 * a1 + 2 ^ 6 * a2 < 2 ^ 9" using assms by simp
  have b4: "a0 + 2 ^ 3 * a1 + 2 ^ 6 * a2 + 2 ^ 9 * a3 < 2 ^ 12" using assms by simp
  have b5: "a0 + 2 ^ 3 * a1 + 2 ^ 6 * a2 + 2 ^ 9 * a3 + 2 ^ 12 * a4 < 2 ^ 15" using assms by simp
  show "a0 + 2 ^ 3 * a1 + 2 ^ 6 * a2 + 2 ^ 9 * a3 + 2 ^ 12 * a4 + 2 ^ 15 * a5 < 2 ^ 18"
    using assms by simp
  have "(0 :: 32 word) OR push_bit 0 (of_nat a0) = of_nat a0" by simp
  then show "((((((0 :: 32 word) OR push_bit 0 (of_nat a0)) OR push_bit 3 (of_nat a1))
            OR push_bit 6 (of_nat a2)) OR push_bit 9 (of_nat a3))
            OR push_bit 12 (of_nat a4)) OR push_bit 15 (of_nat a5)
         = of_nat (a0 + 2 ^ 3 * a1 + 2 ^ 6 * a2 + 2 ^ 9 * a3 + 2 ^ 12 * a4 + 2 ^ 15 * a5)"
    by (simp only: word_or_push_bit_of_nat [OF b1] word_or_push_bit_of_nat [OF b2]
        word_or_push_bit_of_nat [OF b3] word_or_push_bit_of_nat [OF b4]
        word_or_push_bit_of_nat [OF b5])
qed


lemma material_key_bound: "material_key mat black < 2 ^ 19"
proof -
  have "nat (min (WhiteQueens mat) 7) < 8" "nat (min (BlackQueens mat) 7) < 8"
    "nat (min (WhiteRooks mat) 7) < 8" "nat (min (BlackRooks mat) 7) < 8"
    "nat (min (WhiteBishops mat + WhiteKnights mat) 7) < 8"
    "nat (min (BlackBishops mat + BlackKnights mat) 7) < 8"
    by simp_all
  then have "nat (min (WhiteQueens mat) 7)
     + 2 ^ 3 * nat (min (BlackQueens mat) 7)
     + 2 ^ 6 * nat (min (WhiteRooks mat) 7)
     + 2 ^ 9 * nat (min (BlackRooks mat) 7)
     + 2 ^ 12 * nat (min (WhiteBishops mat + WhiteKnights mat) 7)
     + 2 ^ 15 * nat (min (BlackBishops mat + BlackKnights mat) 7) < 2 ^ 18"
    by (rule material_id_packs(2))
  then show ?thesis by (simp add: material_key_def)
qed

lemma material_id_eq_key:
  assumes "Material_nonneg mat"
  shows "material_id mat side = of_nat (material_key mat (side = ''b''))"
proof -
  define a0 where "a0 = nat (min (WhiteQueens mat) 7)"
  define a1 where "a1 = nat (min (BlackQueens mat) 7)"
  define a2 where "a2 = nat (min (WhiteRooks mat) 7)"
  define a3 where "a3 = nat (min (BlackRooks mat) 7)"
  define a4 where "a4 = nat (min (WhiteBishops mat + WhiteKnights mat) 7)"
  define a5 where "a5 = nat (min (BlackBishops mat + BlackKnights mat) 7)"
  define k where "k = a0 + 2 ^ 3 * a1 + 2 ^ 6 * a2 + 2 ^ 9 * a3 + 2 ^ 12 * a4 + 2 ^ 15 * a5"
  from assms have nn: "0 \<le> WhiteQueens mat" "0 \<le> BlackQueens mat" "0 \<le> WhiteRooks mat"
    "0 \<le> BlackRooks mat" "0 \<le> WhiteBishops mat + WhiteKnights mat"
    "0 \<le> BlackBishops mat + BlackKnights mat"
    by (simp_all add: Material_nonneg_def)
  have w: "(word_of_int (min (WhiteQueens mat) 7) :: 32 word) = of_nat a0"
    "(word_of_int (min (BlackQueens mat) 7) :: 32 word) = of_nat a1"
    "(word_of_int (min (WhiteRooks mat) 7) :: 32 word) = of_nat a2"
    "(word_of_int (min (BlackRooks mat) 7) :: 32 word) = of_nat a3"
    "(word_of_int (min (WhiteBishops mat + WhiteKnights mat) 7) :: 32 word) = of_nat a4"
    "(word_of_int (min (BlackBishops mat + BlackKnights mat) 7) :: 32 word) = of_nat a5"
    unfolding a0_def a1_def a2_def a3_def a4_def a5_def
    by (rule capped_count(1) [OF nn(1)] capped_count(1) [OF nn(2)] capped_count(1) [OF nn(3)]
        capped_count(1) [OF nn(4)] capped_count(1) [OF nn(5)] capped_count(1) [OF nn(6)])+
  have b: "a0 < 8" "a1 < 8" "a2 < 8" "a3 < 8" "a4 < 8" "a5 < 8"
    unfolding a0_def a1_def a2_def a3_def a4_def a5_def by simp_all
  have id6: "((((((0 :: 32 word) OR push_bit 0 (of_nat a0)) OR push_bit 3 (of_nat a1))
            OR push_bit 6 (of_nat a2)) OR push_bit 9 (of_nat a3))
            OR push_bit 12 (of_nat a4)) OR push_bit 15 (of_nat a5) = of_nat k"
    unfolding k_def using b by (rule material_id_packs(1))
  have kb: "k < 2 ^ 18" unfolding k_def using b by (rule material_id_packs(2))
  have key: "material_key mat (side = ''b'') = k + 2 ^ 18 * (if side = ''b'' then 1 else 0)"
    by (simp add: material_key_def k_def a0_def a1_def a2_def a3_def a4_def a5_def)
  have mid: "material_id mat side
      = (if side = ''b'' then of_nat k OR push_bit 18 1 else of_nat k)"
    unfolding material_id_def Let_def w id6 by (rule refl)
  show ?thesis
  proof (cases "side = ''b''")
    case True
    have "(of_nat k :: 32 word) OR push_bit 18 (of_nat 1) = of_nat (k + 2 ^ 18 * 1)"
      using kb by (rule word_or_push_bit_of_nat)
    with True mid key show ?thesis by simp
  next
    case False
    with mid key show ?thesis by simp
  qed
qed

lemma uint_of_nat_32: "k < 2 ^ 32 \<Longrightarrow> uint (of_nat k :: 32 word) = int k"
  by (simp add: uint_nat unat_of_nat take_bit_nat_eq_self)

lemma word_of_int_32_pos:
  assumes "0 < N" and "N < 2 ^ 32"
  shows "uint (word_of_int N :: 32 word) = N"
proof -
  have "uint (word_of_int N :: 32 word) = N mod 2 ^ 32" by (simp add: uint_word_of_int)
  with assms show ?thesis by simp
qed

lemma mod_shards_exact:
  "mod_shards x N = (if N mod 2 ^ 32 = 0 then None else Some (uint x mod (N mod 2 ^ 32)))"
proof -
  have u: "uint (word_of_int N :: 32 word) = N mod 2 ^ 32" by (simp add: uint_word_of_int)
  have z: "(word_of_int N :: 32 word) = 0 \<longleftrightarrow> N mod 2 ^ 32 = 0"
    using u by (metis uint_0_iff)
  have "uint (x mod word_of_int N) = uint x mod uint (word_of_int N :: 32 word)"
    by (rule uint_mod)
  with u z show ?thesis by (simp add: mod_shards_def)
qed

lemma mod_shards_in_range:
  assumes "0 < N" and "N < 2 ^ 32"
  shows "mod_shards x N = Some (uint x mod N)"
proof -
  from assms have "N mod 2 ^ 32 = N" by simp
  with assms show ?thesis by (simp add: mod_shards_exact)
qed


lemma SideToMove_Inr_D: "SideToMove s = Inr x \<Longrightarrow> x = ''w'' \<or> x = ''b''"
  by (auto simp: SideToMove_def Let_def split: if_splits)

lemma side_is_black:
  "(case SideToMove s of Inl e \<Rightarrow> [] | Inr x \<Rightarrow> x) = ''b'' \<longleftrightarrow> SideToMove s = Inr ''b''"
  by (cases "SideToMove s") auto

lemma material_ShardID_parsed:
  assumes "ParseMaterial s = Inr mat"
  shows "material_ShardID s N
     = mod_shards (of_nat (material_key mat (SideToMove s = Inr ''b''))) N"
proof -
  from assms have "Material_nonneg mat" by (rule ParseMaterial_nonneg)
  then have "material_id mat (case SideToMove s of Inl e \<Rightarrow> [] | Inr x \<Rightarrow> x)
      = of_nat (material_key mat ((case SideToMove s of Inl e \<Rightarrow> [] | Inr x \<Rightarrow> x) = ''b''))"
    by (rule material_id_eq_key)
  with assms show ?thesis by (simp add: material_ShardID_def Let_def side_is_black)
qed

lemma material_ShardID_failed:
  assumes "ParseMaterial s = Inl e"
  shows "material_ShardID s N = mod_shards (fnv1a32 s) N"
  using assms by (simp add: material_ShardID_def hashFallback_def fnv1a32_def)

lemma uint_material_key:
  "uint (of_nat (material_key mat black) :: 32 word) = int (material_key mat black)"
proof -
  have "material_key mat black < 2 ^ 19" by (rule material_key_bound)
  also have "(2 :: nat) ^ 19 < 2 ^ 32" by simp
  finally show ?thesis by (rule uint_of_nat_32)
qed

text \<open>
  For shard counts \<open>0 < N < 2^32\<close> the reduction \<open>id % uint32(totalShards)\<close> is reduction
  modulo \<open>N\<close>: a parsed placement gives \<open>K mod N\<close> for the key \<open>K < 2^19\<close> of the parsed
  counts and the side to move, a failed parse gives the FNV-1a hash of the raw input
  modulo \<open>N\<close>, and a value is always returned.
\<close>

lemma material_ShardID_is_key_mod:
  assumes "0 < N" and "N < 2 ^ 32"
  shows "(\<forall>mat. ParseMaterial s = Inr mat \<longrightarrow>
            material_ShardID s N = Some (int (material_key mat (SideToMove s = Inr ''b'')) mod N)
            \<and> material_key mat (SideToMove s = Inr ''b'') < 2 ^ 19)
       \<and> (\<forall>e. ParseMaterial s = Inl e \<longrightarrow>
            material_ShardID s N = Some (uint (fnv1a32 s) mod N))
       \<and> material_ShardID s N \<noteq> None"
proof (intro conjI allI impI)
  fix mat assume p: "ParseMaterial s = Inr mat"
  show "material_ShardID s N = Some (int (material_key mat (SideToMove s = Inr ''b'')) mod N)"
    unfolding material_ShardID_parsed [OF p] mod_shards_in_range [OF assms] uint_material_key
    by (rule refl)
  show "material_key mat (SideToMove s = Inr ''b'') < 2 ^ 19" by (rule material_key_bound)
next
  fix e assume p: "ParseMaterial s = Inl e"
  show "material_ShardID s N = Some (uint (fnv1a32 s) mod N)"
    unfolding material_ShardID_failed [OF p] mod_shards_in_range [OF assms] by (rule refl)
next
  show "material_ShardID s N \<noteq> None"
  proof (cases "ParseMaterial s")
    case (Inl e)
    show ?thesis unfolding material_ShardID_failed [OF Inl] mod_shards_in_range [OF assms] by simp
  next
    case (Inr mat)
    show ?thesis unfolding material_ShardID_parsed [OF Inr] mod_shards_in_range [OF assms] by simp
  qed
qed

lemma mod_shards_range:
  assumes "0 < N" and "N mod 2 ^ 32 \<noteq> 0"
  shows "\<exists>r. mod_shards x N = Some r \<and> 0 \<le> r \<and> r < N"
proof -
  define d where "d = N mod 2 ^ 32"
  have d0: "0 \<le> d" by (simp add: d_def)
  with assms(2) have dpos: "0 < d" by (simp add: d_def)
  have dle: "d \<le> N" unfolding d_def using assms(1) by (simp add: zmod_le_nonneg_dividend)
  have r0: "0 \<le> uint x mod d" using dpos by simp
  have r1: "uint x mod d < d" using dpos by simp
  have "mod_shards x N = Some (uint x mod d)"
    using assms(2) by (simp add: mod_shards_exact d_def)
  with r0 r1 dle show ?thesis by simp
qed

lemma material_ShardID_is_mod_shards: "\<exists>x. material_ShardID s N = mod_shards x N"
proof (cases "ParseMaterial s")
  case (Inl e)
  then show ?thesis using material_ShardID_failed by blast
next
  case (Inr mat)
  then show ?thesis using material_ShardID_parsed by blast
qed

text \<open>
  For every input string and every \<open>N > 0\<close> that is not a multiple of \<open>2^32\<close>, both
  strategies return a shard id \<open>r\<close> with \<open>0 \<le> r < N\<close>.
\<close>

lemma ShardID_in_range:
  assumes "0 < N" and "N mod 2 ^ 32 \<noteq> 0"
  shows "(\<exists>r. material_ShardID s N = Some r \<and> 0 \<le> r \<and> r < N)
       \<and> (\<exists>r. fnv_ShardID s N = Some r \<and> 0 \<le> r \<and> r < N)"
proof
  obtain x where "material_ShardID s N = mod_shards x N"
    using material_ShardID_is_mod_shards by blast
  with mod_shards_range [OF assms, of x]
  show "\<exists>r. material_ShardID s N = Some r \<and> 0 \<le> r \<and> r < N" by simp
next
  have "fnv_ShardID s N
      = mod_shards (fnv1a32 (case Normalize s of Inl e \<Rightarrow> s | Inr n \<Rightarrow> n)) N"
    by (simp add: fnv_ShardID_def Let_def)
  with mod_shards_range [OF assms, of "fnv1a32 (case Normalize s of Inl e \<Rightarrow> s | Inr n \<Rightarrow> n)"]
  show "\<exists>r. fnv_ShardID s N = Some r \<and> 0 \<le> r \<and> r < N" by simp
qed

lemma count_piece_valid:
  assumes "ch \<in> set ''PNBRQKpnbrqk12345678/''"
  shows "\<exists>m'. count_piece m ch = Some m'"
proof -
  from assms have "ch = CHR ''P'' \<or> ch = CHR ''N'' \<or> ch = CHR ''B'' \<or> ch = CHR ''R''
      \<or> ch = CHR ''Q'' \<or> ch = CHR ''K'' \<or> ch = CHR ''p'' \<or> ch = CHR ''n'' \<or> ch = CHR ''b''
      \<or> ch = CHR ''r'' \<or> ch = CHR ''q'' \<or> ch = CHR ''k'' \<or> ch = CHR ''1'' \<or> ch = CHR ''2''
      \<or> ch = CHR ''3'' \<or> ch = CHR ''4'' \<or> ch = CHR ''5'' \<or> ch = CHR ''6'' \<or> ch = CHR ''7''
      \<or> ch = CHR ''8'' \<or> ch = CHR ''/''"
    by simp
  then show ?thesis
    by (elim disjE) (simp_all add: count_piece_def)
qed
lemma ParseMaterial_loop_valid:
  "set t \<subseteq> set ''PNBRQKpnbrqk12345678/'' \<Longrightarrow> \<exists>m'. ParseMaterial_loop m t = Inr m'"
proof (induction t arbitrary: m)
  case Nil
  show ?case by simp
next
  case (Cons ch rest)
  from Cons.prems have "ch \<in> set ''PNBRQKpnbrqk12345678/''" by simp
  then obtain m1 where m1: "count_piece m ch = Some m1" using count_piece_valid by blast
  from Cons.prems have "set rest \<subseteq> set ''PNBRQKpnbrqk12345678/''" by simp
  then obtain m' where "ParseMaterial_loop m1 rest = Inr m'" using Cons.IH by blast
  with m1 show ?case by simp
qed

lemma material_key_white_bound: "material_key mat False < 2 ^ 18"
proof -
  have "nat (min (WhiteQueens mat) 7) < 8" "nat (min (BlackQueens mat) 7) < 8"
    "nat (min (WhiteRooks mat) 7) < 8" "nat (min (BlackRooks mat) 7) < 8"
    "nat (min (WhiteBishops mat + WhiteKnights mat) 7) < 8"
    "nat (min (BlackBishops mat + BlackKnights mat) 7) < 8"
    by simp_all
  then have "nat (min (WhiteQueens mat) 7)
     + 2 ^ 3 * nat (min (BlackQueens mat) 7)
     + 2 ^ 6 * nat (min (WhiteRooks mat) 7)
     + 2 ^ 9 * nat (min (BlackRooks mat) 7)
     + 2 ^ 12 * nat (min (WhiteBishops mat + WhiteKnights mat) 7)
     + 2 ^ 15 * nat (min (BlackBishops mat + BlackKnights mat) 7) < 2 ^ 18"
    by (rule material_id_packs(2))
  then show ?thesis by (simp add: material_key_def)
qed

text \<open>
  A placement token of piece letters, digits and slashes with no valid side token: the
  parse succeeds, \<open>SideToMove\<close> fails, and for \<open>0 < N < 2^32\<close> the result is the key with
  bit 18 clear, modulo \<open>N\<close>.
\<close>

lemma material_ShardID_missing_side:
  assumes tok: "Fields s \<noteq> []"
    and placement: "set (Fields s ! 0) \<subseteq> set ''PNBRQKpnbrqk12345678/''"
    and side: "length (Fields s) < 2 \<or> (Fields s ! 1 \<noteq> ''w'' \<and> Fields s ! 1 \<noteq> ''b'')"
    and "0 < N" and "N < 2 ^ 32"
  shows "\<exists>mat. ParseMaterial s = Inr mat
           \<and> SideToMove s = Inl ErrInvalidFEN
           \<and> material_ShardID s N = Some (int (material_key mat False) mod N)
           \<and> material_key mat False < 2 ^ 18"
proof -
  from placement obtain mat where "ParseMaterial_loop Material_zero (Fields s ! 0) = Inr mat"
    using ParseMaterial_loop_valid by blast
  with tok have p: "ParseMaterial s = Inr mat" by (simp add: ParseMaterial_def Let_def)
  from side have sd: "SideToMove s = Inl ErrInvalidFEN"
    by (auto simp: SideToMove_def Let_def)
  then have nb: "(SideToMove s = Inr ''b'') = False" by simp
  have "material_ShardID s N = Some (int (material_key mat False) mod N)"
    unfolding material_ShardID_parsed [OF p] mod_shards_in_range [OF assms(4,5)]
      uint_material_key nb by (rule refl)
  with p sd material_key_white_bound [of mat] show ?thesis by blast
qed

lemma count_piece_counts:
  assumes "count_piece m ch = Some m'"
  shows "WhitePawns m' = WhitePawns m + (if ch = CHR ''P'' then 1 else 0)
    \<and> WhiteKnights m' = WhiteKnights m + (if ch = CHR ''N'' then 1 else 0)
    \<and> WhiteBishops m' = WhiteBishops m + (if ch = CHR ''B'' then 1 else 0)
    \<and> WhiteRooks m' = WhiteRooks m + (if ch = CHR ''R'' then 1 else 0)
    \<and> WhiteQueens m' = WhiteQueens m + (if ch = CHR ''Q'' then 1 else 0)
    \<and> BlackPawns m' = BlackPawns m + (if ch = CHR ''p'' then 1 else 0)
    \<and> BlackKnights m' = BlackKnights m + (if ch = CHR ''n'' then 1 else 0)
    \<and> BlackBishops m' = BlackBishops m + (if ch = CHR ''b'' then 1 else 0)
    \<and> BlackRooks m' = BlackRooks m + (if ch = CHR ''r'' then 1 else 0)
    \<and> BlackQueens m' = BlackQueens m + (if ch = CHR ''q'' then 1 else 0)"
  using assms unfolding count_piece_def
  by (simp split: if_splits; fastforce)


lemma ParseMaterial_loop_counts:
  "ParseMaterial_loop m t = Inr m' \<Longrightarrow>
     WhitePawns m' = WhitePawns m + int (count_list t CHR ''P'')
   \<and> WhiteKnights m' = WhiteKnights m + int (count_list t CHR ''N'')
   \<and> WhiteBishops m' = WhiteBishops m + int (count_list t CHR ''B'')
   \<and> WhiteRooks m' = WhiteRooks m + int (count_list t CHR ''R'')
   \<and> WhiteQueens m' = WhiteQueens m + int (count_list t CHR ''Q'')
   \<and> BlackPawns m' = BlackPawns m + int (count_list t CHR ''p'')
   \<and> BlackKnights m' = BlackKnights m + int (count_list t CHR ''n'')
   \<and> BlackBishops m' = BlackBishops m + int (count_list t CHR ''b'')
   \<and> BlackRooks m' = BlackRooks m + int (count_list t CHR ''r'')
   \<and> BlackQueens m' = BlackQueens m + int (count_list t CHR ''q'')"
proof (induction t arbitrary: m)
  case Nil
  then show ?case by simp
next
  case (Cons ch rest)
  from Cons.prems obtain m1 where m1: "count_piece m ch = Some m1"
    and r: "ParseMaterial_loop m1 rest = Inr m'"
    by (auto split: option.splits)
  note step = count_piece_counts [OF m1]
  note ih = Cons.IH [OF r]
  show ?case
  proof (intro conjI)
    show "WhitePawns m' = WhitePawns m + int (count_list (ch # rest) CHR ''P'')"
      using step ih by simp
    show "WhiteKnights m' = WhiteKnights m + int (count_list (ch # rest) CHR ''N'')"
      using step ih by simp
    show "WhiteBishops m' = WhiteBishops m + int (count_list (ch # rest) CHR ''B'')"
      using step ih by simp
    show "WhiteRooks m' = WhiteRooks m + int (count_list (ch # rest) CHR ''R'')"
      using step ih by simp
    show "WhiteQueens m' = WhiteQueens m + int (count_list (ch # rest) CHR ''Q'')"
      using step ih by simp
    show "BlackPawns m' = BlackPawns m + int (count_list (ch # rest) CHR ''p'')"
      using step ih by simp
    show "BlackKnights m' = BlackKnights m + int (count_list (ch # rest) CHR ''n'')"
      using step ih by simp
    show "BlackBishops m' = BlackBishops m + int (count_list (ch # rest) CHR ''b'')"
      using step ih by simp
    show "BlackRooks m' = BlackRooks m + int (count_list (ch # rest) CHR ''r'')"
      using step ih by simp
    show "BlackQueens m' = BlackQueens m + int (count_list (ch # rest) CHR ''q'')"
      using step ih by simp
  qed
qed


text \<open>
  The key of the specification's table computed from the placement token itself: the
  capped numbers of occurrences of the piece letters, and the side-to-move bit.
\<close>

definition placement_key :: "string \<Rightarrow> bool \<Rightarrow> nat" where
  "placement_key tok black =
     min (count_list tok CHR ''Q'') 7
     + 2 ^ 3 * min (count_list tok CHR ''q'') 7
     + 2 ^ 6 * min (count_list tok CHR ''R'') 7
     + 2 ^ 9 * min (count_list tok CHR ''r'') 7
     + 2 ^ 12 * min (count_list tok CHR ''B'' + count_list tok CHR ''N'') 7
     + 2 ^ 15 * min (count_list tok CHR ''b'' + count_list tok CHR ''n'') 7
     + 2 ^ 18 * (if black then 1 else 0)"

lemma count_piece_invalid:
  assumes "ch \<notin> set ''PNBRQKpnbrqk12345678/''"
  shows "count_piece m ch = None"
  using assms by (simp add: count_piece_def)

lemma ParseMaterial_loop_invalid:
  "\<not> set t \<subseteq> set ''PNBRQKpnbrqk12345678/'' \<Longrightarrow> ParseMaterial_loop m t = Inl ErrInvalidFEN"
proof (induction t arbitrary: m)
  case Nil
  then show ?case by simp
next
  case (Cons ch rest)
  show ?case
  proof (cases "ch \<in> set ''PNBRQKpnbrqk12345678/''")
    case False
    then have "count_piece m ch = None" by (rule count_piece_invalid)
    then show ?thesis by simp
  next
    case True
    then obtain m1 where m1: "count_piece m ch = Some m1" using count_piece_valid by blast
    from True Cons.prems have "\<not> set rest \<subseteq> set ''PNBRQKpnbrqk12345678/''" by auto
    then have "ParseMaterial_loop m1 rest = Inl ErrInvalidFEN" by (rule Cons.IH)
    with m1 show ?thesis by simp
  qed
qed

lemma ParseMaterial_succeeds_iff:
  "(\<exists>mat. ParseMaterial s = Inr mat)
     \<longleftrightarrow> Fields s \<noteq> [] \<and> set (Fields s ! 0) \<subseteq> set ''PNBRQKpnbrqk12345678/''"
proof (cases "Fields s = []")
  case True
  then show ?thesis by (simp add: ParseMaterial_def)
next
  case ne: False
  then have p: "ParseMaterial s = ParseMaterial_loop Material_zero (Fields s ! 0)"
    by (simp add: ParseMaterial_def Let_def)
  show ?thesis
  proof (cases "set (Fields s ! 0) \<subseteq> set ''PNBRQKpnbrqk12345678/''")
    case True
    then obtain mat where "ParseMaterial_loop Material_zero (Fields s ! 0) = Inr mat"
      using ParseMaterial_loop_valid by blast
    with p ne True show ?thesis by simp
  next
    case False
    then have "ParseMaterial_loop Material_zero (Fields s ! 0) = Inl ErrInvalidFEN"
      by (rule ParseMaterial_loop_invalid)
    with p ne False show ?thesis by simp
  qed
qed

lemma ParseMaterial_fails: "ParseMaterial s = Inl e \<Longrightarrow> \<not> (\<exists>mat. ParseMaterial s = Inr mat)"
  by simp

lemma material_key_eq_placement_key:
  assumes "ParseMaterial s = Inr mat"
  shows "material_key mat black = placement_key (Fields s ! 0) black"
proof -
  from assms have l: "ParseMaterial_loop Material_zero (Fields s ! 0) = Inr mat"
    by (simp add: ParseMaterial_def Let_def split: if_splits)
  note c = ParseMaterial_loop_counts [OF l]
  have z: "WhiteKnights Material_zero = 0" "WhiteBishops Material_zero = 0"
    "WhiteRooks Material_zero = 0" "WhiteQueens Material_zero = 0"
    "BlackKnights Material_zero = 0" "BlackBishops Material_zero = 0"
    "BlackRooks Material_zero = 0" "BlackQueens Material_zero = 0"
    by (simp_all add: Material_zero_def)
  have q: "nat (min (int a) 7) = min a 7" for a :: nat by simp
  have q2: "nat (min (int a + int b) 7) = min (a + b) 7" for a b :: nat by simp
  from c z have f: "WhiteQueens mat = int (count_list (Fields s ! 0) CHR ''Q'')"
    "BlackQueens mat = int (count_list (Fields s ! 0) CHR ''q'')"
    "WhiteRooks mat = int (count_list (Fields s ! 0) CHR ''R'')"
    "BlackRooks mat = int (count_list (Fields s ! 0) CHR ''r'')"
    "WhiteBishops mat = int (count_list (Fields s ! 0) CHR ''B'')"
    "WhiteKnights mat = int (count_list (Fields s ! 0) CHR ''N'')"
    "BlackBishops mat = int (count_list (Fields s ! 0) CHR ''b'')"
    "BlackKnights mat = int (count_list (Fields s ! 0) CHR ''n'')"
    by simp_all
  show ?thesis
    unfolding material_key_def placement_key_def f q q2 by (rule refl)
qed

lemma SideToMove_black_iff:
  "SideToMove s = Inr ''b'' \<longleftrightarrow> 2 \<le> length (Fields s) \<and> Fields s ! 1 = ''b''"
  by (auto simp: SideToMove_def Let_def)

lemma material_ShardID_by_counts:
  assumes "0 < N" and "N < 2 ^ 32"
  shows "material_ShardID s N =
     (if Fields s \<noteq> [] \<and> set (Fields s ! 0) \<subseteq> set ''PNBRQKpnbrqk12345678/''
      then Some (int (placement_key (Fields s ! 0)
                        (2 \<le> length (Fields s) \<and> Fields s ! 1 = ''b'')) mod N)
      else Some (uint (fnv1a32 s) mod N))"
proof -
  define ok where
    "ok \<longleftrightarrow> Fields s \<noteq> [] \<and> set (Fields s ! 0) \<subseteq> set ''PNBRQKpnbrqk12345678/''"
  have iff: "(\<exists>mat. ParseMaterial s = Inr mat) \<longleftrightarrow> ok"
    unfolding ok_def by (rule ParseMaterial_succeeds_iff)
  have "material_ShardID s N =
     (if ok
      then Some (int (placement_key (Fields s ! 0)
                        (2 \<le> length (Fields s) \<and> Fields s ! 1 = ''b'')) mod N)
      else Some (uint (fnv1a32 s) mod N))"
  proof (cases "ParseMaterial s")
    case (Inl e)
    then have "\<not> ok" using iff by simp
    moreover have "material_ShardID s N = Some (uint (fnv1a32 s) mod N)"
      unfolding material_ShardID_failed [OF Inl] mod_shards_in_range [OF assms] by (rule refl)
    ultimately show ?thesis by simp
  next
    case (Inr mat)
    then have v: ok using iff by blast
    have "material_ShardID s N
        = Some (int (material_key mat (SideToMove s = Inr ''b'')) mod N)"
      unfolding material_ShardID_parsed [OF Inr] mod_shards_in_range [OF assms] uint_material_key
      by (rule refl)
    also have "material_key mat (SideToMove s = Inr ''b'')
        = placement_key (Fields s ! 0) (2 \<le> length (Fields s) \<and> Fields s ! 1 = ''b'')"
      unfolding material_key_eq_placement_key [OF Inr] SideToMove_black_iff by (rule refl)
    finally show ?thesis using v by simp
  qed
  then show ?thesis unfolding ok_def .
qed



lemma Fields_Qq_b: "Fields ''Qq b'' = [''Qq'', ''b'']"
  by (simp add: Fields_def)

lemma ParseMaterial_Qq_b:
  "ParseMaterial ''Qq b'' = Inr (Material_zero\<lparr>WhiteQueens := 1, BlackQueens := 1\<rparr>)"
  by (simp add: ParseMaterial_def Fields_Qq_b count_piece_def Material_zero_def)

lemma SideToMove_Qq_b: "SideToMove ''Qq b'' = Inr ''b''"
  by (simp add: SideToMove_def Fields_Qq_b)

lemma ParseMaterial_x: "ParseMaterial ''x'' = Inl ErrInvalidFEN"
  by (simp add: ParseMaterial_def Fields_def count_piece_def)

lemma fnv1a32_x: "fnv1a32 ''x'' = 4245442695"
  by (simp add: fnv1a32_def)

lemma Fields_Q_w: "Fields ''Q w'' = [''Q'', ''w'']"
  by (simp add: Fields_def)

lemma ParseMaterial_Q_w: "ParseMaterial ''Q w'' = Inr (Material_zero\<lparr>WhiteQueens := 1\<rparr>)"
  by (simp add: ParseMaterial_def Fields_Q_w count_piece_def Material_zero_def)

lemma SideToMove_Q_w: "SideToMove ''Q w'' = Inr ''w''"
  by (simp add: SideToMove_def Fields_Q_w)

lemma Normalize_empty_board:
  "Normalize ''8/8/8/8/8/8/8/8 w - -'' = Inr ''8/8/8/8/8/8/8/8 w - -''"
  by (simp add: Normalize_def Fields_def isValidPiecePlacement_def)

lemma ParseMaterial_empty_board: "ParseMaterial ''8/8/8/8/8/8/8/8 w - -'' = Inr Material_zero"
  by (simp add: ParseMaterial_def Fields_def count_piece_def)

lemma SideToMove_empty_board: "SideToMove ''8/8/8/8/8/8/8/8 w - -'' = Inr ''w''"
  by (simp add: SideToMove_def Fields_def)

lemma fnv1a32_empty_board: "fnv1a32 ''8/8/8/8/8/8/8/8 w - -'' = 1276401365"
  by (simp add: fnv1a32_def)

lemma Fields_Qq: "Fields ''Qq'' = [''Qq'']"
  by (simp add: Fields_def)

lemma Fields_Qq_x: "Fields ''Qq x'' = [''Qq'', ''x'']"
  by (simp add: Fields_def)

lemma ParseMaterial_Qq:
  "ParseMaterial ''Qq'' = Inr (Material_zero\<lparr>WhiteQueens := 1, BlackQueens := 1\<rparr>)"
  by (simp add: ParseMaterial_def Fields_Qq count_piece_def Material_zero_def)

lemma ParseMaterial_Qq_x:
  "ParseMaterial ''Qq x'' = Inr (Material_zero\<lparr>WhiteQueens := 1, BlackQueens := 1\<rparr>)"
  by (simp add: ParseMaterial_def Fields_Qq_x count_piece_def Material_zero_def)


lemma Fields_all_pieces_b: "Fields ''QqqRRRrrrrBNbbnnn b'' = [''QqqRRRrrrrBNbbnnn'', ''b'']"
  by (simp add: Fields_def)

lemma Fields_all_pieces_w: "Fields ''QqqRRRrrrrBNbbnnn w'' = [''QqqRRRrrrrBNbbnnn'', ''w'']"
  by (simp add: Fields_def)

lemma Fields_all_pieces: "Fields ''QqqRRRrrrrBNbbnnn'' = [''QqqRRRrrrrBNbbnnn'']"
  by (simp add: Fields_def)

lemma Fields_all_pieces_x: "Fields ''QqqRRRrrrrBNbbnnn x'' = [''QqqRRRrrrrBNbbnnn'', ''x'']"
  by (simp add: Fields_def)

lemma Fields_nine_queens: "Fields ''QQQQQQQQQ w'' = [''QQQQQQQQQ'', ''w'']"
  by (simp add: Fields_def)

lemma Fields_Q: "Fields ''Q'' = [''Q'']"
  by (simp add: Fields_def)

lemma ParseMaterial_Q: "ParseMaterial ''Q'' = Inr (Material_zero\<lparr>WhiteQueens := 1\<rparr>)"
  by (simp add: ParseMaterial_def Fields_Q count_piece_def Material_zero_def)

lemma SideToMove_Q: "SideToMove ''Q'' = Inl ErrInvalidFEN"
  by (simp add: SideToMove_def Fields_Q)

lemma material_key_one_queen: "material_key (Material_zero\<lparr>WhiteQueens := 1\<rparr>) False = 1"
  by (simp add: material_key_def Material_zero_def)

lemma shard_count_in_range:
  "(0 :: int) < 524288" "(524288 :: int) < 2 ^ 32" "(0 :: int) < 32768" "(32768 :: int) < 2 ^ 32"
  by simp_all

text \<open>
  Claim C2.  For shard counts that fit 32 bits the material strategy returns the 19-bit
  key modulo \<open>N\<close>: with one, two, three and four of the queens and rooks, two white and
  five black minor pieces and black to move the key is
  \<open>1 + 2 * 8 + 3 * 64 + 4 * 512 + 2 * 4096 + 5 * 32768 + 262144 = 436433\<close>; with white to move it is
  \<open>174289\<close>; nine queens are capped at seven; an input that does not parse falls back
  to FNV-1a of the raw input.  The shard count itself is converted with
  \<open>uint32(totalShards)\<close>: for \<open>N = 2^32 + 1\<close> the input \<open>Q w\<close>, whose key is 1, is sent to
  shard \<open>1 mod 1 = 0\<close> and not to \<open>1 mod N = 1\<close>, and for \<open>N = 2^32\<close> the divisor is zero and
  the call panics.
\<close>

theorem material_ShardID_samples_and_wide_shard_count:
  "material_ShardID ''QqqRRRrrrrBNbbnnn b'' 524288 = Some 436433
   \<and> material_ShardID ''QqqRRRrrrrBNbbnnn w'' 524288 = Some 174289
   \<and> material_ShardID ''QQQQQQQQQ w'' 524288 = Some 7
   \<and> material_ShardID ''Qq b'' 32768 = Some 9
   \<and> ParseMaterial ''x'' = Inl ErrInvalidFEN
   \<and> fnv1a32 ''x'' = 4245442695
   \<and> material_ShardID ''x'' 32768 = Some (4245442695 mod 32768)
   \<and> ParseMaterial ''Q w'' = Inr (Material_zero\<lparr>WhiteQueens := 1\<rparr>)
   \<and> SideToMove ''Q w'' = Inr ''w''
   \<and> int (material_key (Material_zero\<lparr>WhiteQueens := 1\<rparr>) False) mod 4294967297 = 1
   \<and> material_ShardID ''Q w'' 4294967297 = Some 0
   \<and> material_ShardID ''Q w'' 4294967296 = None"
proof -
  have s1: "material_ShardID ''QqqRRRrrrrBNbbnnn b'' 524288 = Some 436433"
    unfolding material_ShardID_by_counts [OF shard_count_in_range(1,2)] Fields_all_pieces_b
    by (simp add: placement_key_def)
  have s2: "material_ShardID ''QqqRRRrrrrBNbbnnn w'' 524288 = Some 174289"
    unfolding material_ShardID_by_counts [OF shard_count_in_range(1,2)] Fields_all_pieces_w
    by (simp add: placement_key_def)
  have s3: "material_ShardID ''QQQQQQQQQ w'' 524288 = Some 7"
    unfolding material_ShardID_by_counts [OF shard_count_in_range(1,2)] Fields_nine_queens
    by (simp add: placement_key_def)
  have s4: "material_ShardID ''Qq b'' 32768 = Some 9"
    unfolding material_ShardID_by_counts [OF shard_count_in_range(3,4)] Fields_Qq_b
    by (simp add: placement_key_def)
  have s5: "material_ShardID ''x'' 32768 = Some (4245442695 mod 32768)"
    unfolding material_ShardID_failed [OF ParseMaterial_x]
      mod_shards_in_range [OF shard_count_in_range(3,4)] fnv1a32_x
    by simp
  have k: "int (material_key (Material_zero\<lparr>WhiteQueens := 1\<rparr>) False) mod 4294967297 = 1"
    by (simp add: material_key_one_queen)
  have m: "material_ShardID ''Q w'' N = mod_shards (of_nat 1) N" for N
    using material_ShardID_parsed [OF ParseMaterial_Q_w, of N]
    by (simp add: SideToMove_Q_w material_key_one_queen)
  have f1: "material_ShardID ''Q w'' 4294967297 = Some 0"
    by (simp add: m mod_shards_exact)
  have f2: "material_ShardID ''Q w'' 4294967296 = None"
    by (simp add: m mod_shards_exact)
  from s1 s2 s3 s4 ParseMaterial_x fnv1a32_x s5 ParseMaterial_Q_w SideToMove_Q_w k f1 f2
  show ?thesis by (intro conjI)
qed

text \<open>
  Claim C3.  On the valid fingerprint of the empty board both strategies return an id
  in range for \<open>N = 100\<close> (0 and 65).  For \<open>N = 2^32\<close>, a positive shard count, both
  compute \<open>uint32(totalShards) = 0\<close>, divide by it and panic: no shard id is returned.
\<close>

theorem ShardID_samples_and_zero_divisor:
  "Normalize ''8/8/8/8/8/8/8/8 w - -'' = Inr ''8/8/8/8/8/8/8/8 w - -''
   \<and> material_ShardID ''8/8/8/8/8/8/8/8 w - -'' 100 = Some 0
   \<and> fnv_ShardID ''8/8/8/8/8/8/8/8 w - -'' 100 = Some 65
   \<and> (0 :: int) < 4294967296
   \<and> material_ShardID ''8/8/8/8/8/8/8/8 w - -'' 4294967296 = None
   \<and> fnv_ShardID ''8/8/8/8/8/8/8/8 w - -'' 4294967296 = None"
proof -
  have k: "material_key Material_zero (SideToMove ''8/8/8/8/8/8/8/8 w - -'' = Inr ''b'') = 0"
    by (simp add: material_key_def Material_zero_def SideToMove_empty_board)
  have m1: "material_ShardID ''8/8/8/8/8/8/8/8 w - -'' 100 = Some 0"
    using material_ShardID_parsed [OF ParseMaterial_empty_board, of 100]
    by (simp add: k mod_shards_exact)
  have f1: "fnv_ShardID ''8/8/8/8/8/8/8/8 w - -'' 100 = Some 65"
    by (simp add: fnv_ShardID_def Normalize_empty_board fnv1a32_empty_board mod_shards_exact)
  have m2: "material_ShardID ''8/8/8/8/8/8/8/8 w - -'' 4294967296 = None"
    using material_ShardID_parsed [OF ParseMaterial_empty_board, of 4294967296]
    by (simp add: mod_shards_exact)
  have f2: "fnv_ShardID ''8/8/8/8/8/8/8/8 w - -'' 4294967296 = None"
    by (simp add: fnv_ShardID_def Normalize_empty_board mod_shards_exact)
  from Normalize_empty_board m1 f1 m2 f2 show ?thesis by simp
qed

text \<open>
  Claim C10.  With no second token, or a second token other than \<open>w\<close> and \<open>b\<close>, the
  material parse succeeds, \<open>SideToMove\<close> fails and its error is dropped, and for shard
  counts that fit 32 bits the result is the key with the side-to-move bit clear modulo
  \<open>N\<close> (\<open>174289\<close> for the placement above, against \<open>436433\<close> with black to move).  The
  reduction is by \<open>uint32(totalShards)\<close>: for \<open>N = 2^32 + 1\<close> the input \<open>Q\<close>, whose key is
  1, yields \<open>0\<close> and not \<open>1 mod N = 1\<close>, and for \<open>N = 2^32\<close> the call panics.
\<close>

theorem material_ShardID_missing_side_samples_and_wide_shard_count:
  "material_ShardID ''QqqRRRrrrrBNbbnnn'' 524288 = Some 174289
   \<and> material_ShardID ''QqqRRRrrrrBNbbnnn x'' 524288 = Some 174289
   \<and> material_ShardID ''Qq'' 32768 = Some 9
   \<and> Fields ''Q'' = [''Q'']
   \<and> ParseMaterial ''Q'' = Inr (Material_zero\<lparr>WhiteQueens := 1\<rparr>)
   \<and> SideToMove ''Q'' = Inl ErrInvalidFEN
   \<and> int (material_key (Material_zero\<lparr>WhiteQueens := 1\<rparr>) False) mod 4294967297 = 1
   \<and> material_ShardID ''Q'' 4294967297 = Some 0
   \<and> material_ShardID ''Q'' 4294967296 = None"
proof -
  have s1: "material_ShardID ''QqqRRRrrrrBNbbnnn'' 524288 = Some 174289"
    unfolding material_ShardID_by_counts [OF shard_count_in_range(1,2)] Fields_all_pieces
    by (simp add: placement_key_def)
  have s2: "material_ShardID ''QqqRRRrrrrBNbbnnn x'' 524288 = Some 174289"
    unfolding material_ShardID_by_counts [OF shard_count_in_range(1,2)] Fields_all_pieces_x
    by (simp add: placement_key_def)
  have s3: "material_ShardID ''Qq'' 32768 = Some 9"
    unfolding material_ShardID_by_counts [OF shard_count_in_range(3,4)] Fields_Qq
    by (simp add: placement_key_def)
  have k: "int (material_key (Material_zero\<lparr>WhiteQueens := 1\<rparr>) False) mod 4294967297 = 1"
    by (simp add: material_key_one_queen)
  have m: "material_ShardID ''Q'' N = mod_shards (of_nat 1) N" for N
    using material_ShardID_parsed [OF ParseMaterial_Q, of N]
    by (simp add: SideToMove_Q material_key_one_queen)
  have f1: "material_ShardID ''Q'' 4294967297 = Some 0"
    by (simp add: m mod_shards_exact)
  have f2: "material_ShardID ''Q'' 4294967296 = None"
    by (simp add: m mod_shards_exact)
  from s1 s2 s3 Fields_Q ParseMaterial_Q SideToMove_Q k f1 f2
  show ?thesis by (intro conjI)
qed


section \<open>Object stores (internal/store)\<close>

text \<open>
  A \<open>context.Context\<close> as far as the stores look at it: \<open>None\<close> while it is not done,
  \<open>Some e\<close> once it is, where \<open>e\<close> is \<open>ctx.Err()\<close> (\<open>Canceled\<close> or \<open>DeadlineExceeded\<close>).
\<close>

type_synonym ctx = "err option"

text \<open>
  The \<open>store.Store\<close> interface over a store state \<open>'u\<close>: \<open>ReadShard\<close> and \<open>Close\<close>, each
  returning its result and the state it leaves.
\<close>

record 'u Store =
  ReadShard :: "'u \<Rightarrow> ctx \<Rightarrow> int \<Rightarrow> (err + string) \<times> 'u"
  Close :: "'u \<Rightarrow> err option \<times> 'u"

text \<open>
  The \<open>codec.Codec\<close> interface: \<open>Reader\<close> fails or yields a stream whose \<open>io.ReadAll\<close>
  fails or yields the decompressed bytes; \<open>Extension\<close> is the file extension.
\<close>

record Codec =
  codec_Reader :: "string \<Rightarrow> err + (err + string)"
  codec_Extension :: string

text \<open>\<open>fmt.Sprintf("%05d", n)\<close>: width five, zero padded, the sign counted in the width.\<close>

definition zero_pad :: "nat \<Rightarrow> string \<Rightarrow> string" where
  "zero_pad w s = replicate (w - length s) CHR ''0'' @ s"

definition Sprintf_05d :: "int \<Rightarrow> string" where
  "Sprintf_05d n =
     (if n < 0 then CHR ''-'' # zero_pad 4 (nat_to_dec (nat (- n)))
      else zero_pad 5 (nat_to_dec (nat n)))"

text \<open>\<open>shardName\<close>, the same in the disk, S3 and GCS stores.\<close>

definition shardName :: "Codec \<Rightarrow> int \<Rightarrow> string" where
  "shardName codec shardID =
     (let name = Sprintf_05d shardID; ext = codec_Extension codec
      in if ext \<noteq> [] then name @ ''.'' @ ext else name)"

text \<open>
  The decompression steps shared by the three stores; \<open>mk\<close> and \<open>rd\<close> are the messages
  the store wraps the two errors with.
\<close>

definition decompress :: "Codec \<Rightarrow> string \<Rightarrow> string \<Rightarrow> err + string" where
  "decompress codec mk compressed =
     (case codec_Reader codec compressed of
        Inl e \<Rightarrow> Inl (Wrap mk e)
      | Inr reader \<Rightarrow>
          (case reader of
             Inl e \<Rightarrow> Inl (Wrap ''decompressing shard'' e)
           | Inr data \<Rightarrow> Inr data))"

subsection \<open>diskstore\<close>

text \<open>
  The file system as \<open>diskstore\<close> uses it: \<open>os.ReadFile\<close> finds no file, fails otherwise,
  or returns the contents.  The reads performed are logged in \<open>fs_reads\<close>, so that
  ``before starting I/O'' can be stated.  \<open>filepath.Join\<close> is the standard library's.
\<close>

datatype read_result = NotExist | ReadFailed err | Contents string

record FileSystem =
  fs_ReadFile :: "string \<Rightarrow> read_result"
  fs_Join :: "string list \<Rightarrow> string"
  fs_reads :: "string list"

record DiskStore =
  ds_root :: string
  ds_codec :: Codec
  ds_fs :: FileSystem

definition shardPath :: "DiskStore \<Rightarrow> int \<Rightarrow> string" where
  "shardPath s shardID =
     fs_Join (ds_fs s) [ds_root s, ''shards'', shardName (ds_codec s) shardID]"

definition diskstore_ReadShard :: "DiskStore \<Rightarrow> ctx \<Rightarrow> int \<Rightarrow> (err + string) \<times> DiskStore" where
  "diskstore_ReadShard s ctx shardID =
     (case ctx of
        Some e \<Rightarrow> (Inl e, s)
      | None \<Rightarrow>
          (let path = shardPath s shardID;
               s' = s\<lparr>ds_fs := (ds_fs s)\<lparr>fs_reads := fs_reads (ds_fs s) @ [path]\<rparr>\<rparr>
           in case fs_ReadFile (ds_fs s) path of
                NotExist \<Rightarrow> (Inl StoreErrNotFound, s')
              | ReadFailed e \<Rightarrow> (Inl (Wrap ''reading shard'' e), s')
              | Contents compressed \<Rightarrow>
                  (decompress (ds_codec s) ''creating decompressor'' compressed, s')))"

definition diskstore_Close :: "DiskStore \<Rightarrow> err option \<times> DiskStore" where
  "diskstore_Close s = (None, s)"

definition diskstore :: "DiskStore Store" where
  "diskstore = \<lparr>ReadShard = diskstore_ReadShard, Close = diskstore_Close\<rparr>"

subsection \<open>s3store and gcsstore\<close>

text \<open>
  The remote bucket as the two object stores use it: a fetch (\<open>GetObject\<close>, respectively
  \<open>NewReader\<close>) is given the context and the key and reports a missing key, another
  failure, or the object's bytes.  The requests sent are logged in \<open>bk_requests\<close>.
\<close>

datatype get_result = NoSuchKey | GetFailed err | Body string

record Bucket =
  bk_Get :: "ctx \<Rightarrow> string \<Rightarrow> get_result"
  bk_requests :: "string list"

record ObjectStore =
  os_bucket :: Bucket
  os_prefix :: string
  os_codec :: Codec

definition shardKey :: "ObjectStore \<Rightarrow> int \<Rightarrow> string" where
  "shardKey s shardID = os_prefix s @ ''shards/'' @ shardName (os_codec s) shardID"

definition s3store_ReadShard :: "ObjectStore \<Rightarrow> ctx \<Rightarrow> int \<Rightarrow> (err + string) \<times> ObjectStore" where
  "s3store_ReadShard s ctx shardID =
     (case ctx of
        Some e \<Rightarrow> (Inl e, s)
      | None \<Rightarrow>
          (let key = shardKey s shardID;
               s' = s\<lparr>os_bucket := (os_bucket s)\<lparr>bk_requests := bk_requests (os_bucket s) @ [key]\<rparr>\<rparr>
           in case bk_Get (os_bucket s) ctx key of
                NoSuchKey \<Rightarrow> (Inl StoreErrNotFound, s')
              | GetFailed e \<Rightarrow> (Inl (Wrap ''reading shard'' e), s')
              | Body b \<Rightarrow> (decompress (os_codec s) ''creating decompressor'' b, s')))"

definition gcsstore_ReadShard :: "ObjectStore \<Rightarrow> ctx \<Rightarrow> int \<Rightarrow> (err + string) \<times> ObjectStore" where
  "gcsstore_ReadShard s ctx shardID =
     (case ctx of
        Some e \<Rightarrow> (Inl e, s)
      | None \<Rightarrow>
          (let key = shardKey s shardID;
               s' = s\<lparr>os_bucket := (os_bucket s)\<lparr>bk_requests := bk_requests (os_bucket s) @ [key]\<rparr>\<rparr>
           in case bk_Get (os_bucket s) ctx key of
                NoSuchKey \<Rightarrow> (Inl StoreErrNotFound, s')
              | GetFailed e \<Rightarrow> (Inl (Wrap ''creating reader'' e), s')
              | Body b \<Rightarrow> (decompress (os_codec s) ''creating decompressor'' b, s')))"

subsection \<open>memstore\<close>

text \<open>The in-memory store for tests: a map from shard ids to bytes; the context is not read.\<close>

definition memstore_ReadShard ::
  "(int \<rightharpoonup> string) \<Rightarrow> ctx \<Rightarrow> int \<Rightarrow> (err + string) \<times> (int \<rightharpoonup> string)" where
  "memstore_ReadShard shards ctx shardID =
     (case shards shardID of
        None \<Rightarrow> (Inl StoreErrNotFound, shards)
      | Some data \<Rightarrow> (Inr data, shards))"

definition memstore_Close :: "(int \<rightharpoonup> string) \<Rightarrow> err option \<times> (int \<rightharpoonup> string)" where
  "memstore_Close shards = (None, shards)"

definition memstore :: "(int \<rightharpoonup> string) Store" where
  "memstore = \<lparr>ReadShard = memstore_ReadShard, Close = memstore_Close\<rparr>"

section \<open>The cache (internal/store/cachedstore)\<close>

text \<open>
  A metrics collector that records: counters and gauges by name
  (\<open>stats.Collector\<close>; histograms are not used by the code modelled here).
\<close>

record Collector =
  counters :: "string \<Rightarrow> int"
  gauges :: "string \<Rightarrow> int"

definition IncCounter :: "Collector \<Rightarrow> string \<Rightarrow> int \<Rightarrow> Collector" where
  "IncCounter c name delta = c\<lparr>counters := (counters c)(name := counters c name + delta)\<rparr>"

definition SetGauge :: "Collector \<Rightarrow> string \<Rightarrow> int \<Rightarrow> Collector" where
  "SetGauge c name v = c\<lparr>gauges := (gauges c)(name := v)\<rparr>"

definition MetricCacheHits :: string where "MetricCacheHits = ''stockpile_cache_hits_total''"
definition MetricCacheMisses :: string where "MetricCacheMisses = ''stockpile_cache_misses_total''"
definition MetricCacheSize :: string where "MetricCacheSize = ''stockpile_cache_size''"

text \<open>
  The eviction policy interface \<open>cachestrategy.Strategy\<close> over a policy state \<open>'s\<close>:
  \<open>Get\<close> (which may reorder), \<open>Add\<close> (which reports an eviction) and \<open>Len\<close>.
\<close>

record 's Strategy =
  st_Get :: "'s \<Rightarrow> int \<Rightarrow> string option \<times> 's"
  st_Add :: "'s \<Rightarrow> int \<Rightarrow> string \<Rightarrow> bool \<times> 's"
  st_Len :: "'s \<Rightarrow> nat"

text \<open>\<open>memory.Backend\<close>: the policy state, the collector, and the two atomic counters.\<close>

record 's Backend =
  bk_strategy :: 's
  bk_collector :: Collector
  bk_hits :: int
  bk_misses :: int

definition Backend_Get :: "'s Strategy \<Rightarrow> 's Backend \<Rightarrow> int \<Rightarrow> string option \<times> 's Backend" where
  "Backend_Get ops b shardID =
     (case st_Get ops (bk_strategy b) shardID of
        (Some val, st) \<Rightarrow>
          (Some val, b\<lparr>bk_strategy := st, bk_hits := bk_hits b + 1,
                       bk_collector := IncCounter (bk_collector b) MetricCacheHits 1\<rparr>)
      | (None, st) \<Rightarrow>
          (None, b\<lparr>bk_strategy := st, bk_misses := bk_misses b + 1,
                   bk_collector := IncCounter (bk_collector b) MetricCacheMisses 1\<rparr>))"

definition Backend_Set :: "'s Strategy \<Rightarrow> 's Backend \<Rightarrow> int \<Rightarrow> string \<Rightarrow> 's Backend" where
  "Backend_Set ops b shardID data =
     (let st = snd (st_Add ops (bk_strategy b) shardID data)
      in b\<lparr>bk_strategy := st,
            bk_collector := SetGauge (bk_collector b) MetricCacheSize (int (st_Len ops st))\<rparr>)"

text \<open>\<open>cachedstore.Store\<close>: the backend and the underlying store's state.\<close>

record ('s, 'u) CachedStore =
  cs_backend :: "'s Backend"
  cs_underlying :: 'u

definition cachedstore_ReadShard ::
  "'s Strategy \<Rightarrow> 'u Store \<Rightarrow> ('s, 'u) CachedStore \<Rightarrow> ctx \<Rightarrow> int
     \<Rightarrow> (err + string) \<times> ('s, 'u) CachedStore" where
  "cachedstore_ReadShard ops ustore s ctx shardID =
     (case Backend_Get ops (cs_backend s) shardID of
        (Some data, b) \<Rightarrow> (Inr data, s\<lparr>cs_backend := b\<rparr>)
      | (None, b) \<Rightarrow>
          (case ReadShard ustore (cs_underlying s) ctx shardID of
             (Inl e, u) \<Rightarrow> (Inl e, s\<lparr>cs_backend := b, cs_underlying := u\<rparr>)
           | (Inr data, u) \<Rightarrow>
               (Inr data, s\<lparr>cs_backend := Backend_Set ops b shardID data, cs_underlying := u\<rparr>)))"

definition cachedstore_Close ::
  "'u Store \<Rightarrow> ('s, 'u) CachedStore \<Rightarrow> err option \<times> ('s, 'u) CachedStore" where
  "cachedstore_Close ustore s =
     (case Close ustore (cs_underlying s) of (r, u) \<Rightarrow> (r, s\<lparr>cs_underlying := u\<rparr>))"

definition cachedstore :: "'s Strategy \<Rightarrow> 'u Store \<Rightarrow> ('s, 'u) CachedStore Store" where
  "cachedstore ops ustore =
     \<lparr>ReadShard = cachedstore_ReadShard ops ustore, Close = cachedstore_Close ustore\<rparr>"

text \<open>
  An LRU policy with a fixed capacity in entries, as the library behind
  \<open>cachestrategy/lru\<close> documents it: entries most recently used first; \<open>Get\<close> moves a found
  entry to the front; \<open>Add\<close> puts the entry at the front and, when the capacity is
  exceeded, drops the last one and reports \<open>True\<close>.
\<close>

record LRU =
  lru_capacity :: nat
  lru_entries :: "(int \<times> string) list"

definition lru_Get :: "LRU \<Rightarrow> int \<Rightarrow> string option \<times> LRU" where
  "lru_Get c key =
     (case map_of (lru_entries c) key of
        None \<Rightarrow> (None, c)
      | Some v \<Rightarrow>
          (Some v, c\<lparr>lru_entries := (key, v) # filter (\<lambda>kv. fst kv \<noteq> key) (lru_entries c)\<rparr>))"

definition lru_Add :: "LRU \<Rightarrow> int \<Rightarrow> string \<Rightarrow> bool \<times> LRU" where
  "lru_Add c key v =
     (case map_of (lru_entries c) key of
        Some old \<Rightarrow>
          (False, c\<lparr>lru_entries := (key, v) # filter (\<lambda>kv. fst kv \<noteq> key) (lru_entries c)\<rparr>)
      | None \<Rightarrow>
          (let es = (key, v) # lru_entries c
           in if length es > lru_capacity c
              then (True, c\<lparr>lru_entries := butlast es\<rparr>)
              else (False, c\<lparr>lru_entries := es\<rparr>)))"

definition lru_Len :: "LRU \<Rightarrow> nat" where
  "lru_Len c = length (lru_entries c)"

definition lru :: "LRU Strategy" where
  "lru = \<lparr>st_Get = lru_Get, st_Add = lru_Add, st_Len = lru_Len\<rparr>"

definition Collector_zero :: Collector where
  "Collector_zero = \<lparr>counters = (\<lambda>n. 0), gauges = (\<lambda>n. 0)\<rparr>"

text \<open>\<open>memory.New(strategy, collector)\<close> on a fresh LRU of the given capacity.\<close>

definition Backend_new :: "nat \<Rightarrow> LRU Backend" where
  "Backend_new cap =
     \<lparr>bk_strategy = \<lparr>lru_capacity = cap, lru_entries = []\<rparr>,
      bk_collector = Collector_zero, bk_hits = 0, bk_misses = 0\<rparr>"


lemma Backend_Get_hit:
  assumes "st_Get ops (bk_strategy b) shardID = (Some data, st)"
  shows "Backend_Get ops b shardID =
     (Some data, b\<lparr>bk_strategy := st, bk_hits := bk_hits b + 1,
                   bk_collector := IncCounter (bk_collector b) MetricCacheHits 1\<rparr>)"
  using assms by (simp add: Backend_Get_def)

lemma Backend_Get_miss:
  assumes "st_Get ops (bk_strategy b) shardID = (None, st)"
  shows "Backend_Get ops b shardID =
     (None, b\<lparr>bk_strategy := st, bk_misses := bk_misses b + 1,
               bk_collector := IncCounter (bk_collector b) MetricCacheMisses 1\<rparr>)"
  using assms by (simp add: Backend_Get_def)

lemma cachedstore_hit:
  assumes "st_Get ops (bk_strategy (cs_backend s)) shardID = (Some data, st)"
  shows "cachedstore_ReadShard ops ustore s ctx shardID =
     (Inr data,
      s\<lparr>cs_backend := (cs_backend s)\<lparr>bk_strategy := st, bk_hits := bk_hits (cs_backend s) + 1,
           bk_collector := IncCounter (bk_collector (cs_backend s)) MetricCacheHits 1\<rparr>\<rparr>)"
  by (simp add: cachedstore_ReadShard_def Backend_Get_hit [OF assms])

lemma cachedstore_miss_ok:
  assumes "st_Get ops (bk_strategy (cs_backend s)) shardID = (None, st)"
    and "ReadShard ustore (cs_underlying s) ctx shardID = (Inr data, u)"
  shows "cachedstore_ReadShard ops ustore s ctx shardID =
     (Inr data,
      s\<lparr>cs_backend :=
           Backend_Set ops
             ((cs_backend s)\<lparr>bk_strategy := st, bk_misses := bk_misses (cs_backend s) + 1,
                bk_collector := IncCounter (bk_collector (cs_backend s)) MetricCacheMisses 1\<rparr>)
             shardID data,
         cs_underlying := u\<rparr>)"
  by (simp add: cachedstore_ReadShard_def Backend_Get_miss [OF assms(1)] assms(2))

lemma cachedstore_miss_err:
  assumes "st_Get ops (bk_strategy (cs_backend s)) shardID = (None, st)"
    and "ReadShard ustore (cs_underlying s) ctx shardID = (Inl e, u)"
  shows "cachedstore_ReadShard ops ustore s ctx shardID =
     (Inl e,
      s\<lparr>cs_backend :=
           (cs_backend s)\<lparr>bk_strategy := st, bk_misses := bk_misses (cs_backend s) + 1,
              bk_collector := IncCounter (bk_collector (cs_backend s)) MetricCacheMisses 1\<rparr>,
         cs_underlying := u\<rparr>)"
  by (simp add: cachedstore_ReadShard_def Backend_Get_miss [OF assms(1)] assms(2))

lemma Backend_Set_fields:
  "bk_strategy (Backend_Set ops b shardID data) = snd (st_Add ops (bk_strategy b) shardID data)"
  "bk_hits (Backend_Set ops b shardID data) = bk_hits b"
  "bk_misses (Backend_Set ops b shardID data) = bk_misses b"
  "counters (bk_collector (Backend_Set ops b shardID data)) = counters (bk_collector b)"
  by (simp_all add: Backend_Set_def Let_def SetGauge_def)

text \<open>
  Claim C4 (as amended).  For every shard id, policy and underlying store: when the
  backend holds the id, \<open>ReadShard\<close> returns the backend's bytes, counts a cache hit and
  leaves the underlying store alone.  Otherwise the backend's lookup counts a cache miss
  and the read is delegated: on success the returned bytes are inserted into the backend;
  on error the underlying store's error is returned verbatim and nothing is inserted.
  The miss is counted in both cases, whether the delegated read succeeds or fails.
\<close>

theorem cachedstore_ReadShard_read_through:
  "(\<forall>data st. st_Get ops (bk_strategy (cs_backend s)) shardID = (Some data, st) \<longrightarrow>
      fst (cachedstore_ReadShard ops ustore s ctx shardID) = Inr data
      \<and> bk_hits (cs_backend (snd (cachedstore_ReadShard ops ustore s ctx shardID)))
          = bk_hits (cs_backend s) + 1
      \<and> counters (bk_collector (cs_backend (snd (cachedstore_ReadShard ops ustore s ctx shardID))))
            MetricCacheHits
          = counters (bk_collector (cs_backend s)) MetricCacheHits + 1
      \<and> bk_misses (cs_backend (snd (cachedstore_ReadShard ops ustore s ctx shardID)))
          = bk_misses (cs_backend s)
      \<and> bk_strategy (cs_backend (snd (cachedstore_ReadShard ops ustore s ctx shardID))) = st
      \<and> cs_underlying (snd (cachedstore_ReadShard ops ustore s ctx shardID)) = cs_underlying s)
   \<and> (\<forall>st data u. st_Get ops (bk_strategy (cs_backend s)) shardID = (None, st)
        \<and> ReadShard ustore (cs_underlying s) ctx shardID = (Inr data, u) \<longrightarrow>
      fst (cachedstore_ReadShard ops ustore s ctx shardID) = Inr data
      \<and> bk_strategy (cs_backend (snd (cachedstore_ReadShard ops ustore s ctx shardID)))
          = snd (st_Add ops st shardID data)
      \<and> bk_misses (cs_backend (snd (cachedstore_ReadShard ops ustore s ctx shardID)))
          = bk_misses (cs_backend s) + 1
      \<and> counters (bk_collector (cs_backend (snd (cachedstore_ReadShard ops ustore s ctx shardID))))
            MetricCacheMisses
          = counters (bk_collector (cs_backend s)) MetricCacheMisses + 1
      \<and> bk_hits (cs_backend (snd (cachedstore_ReadShard ops ustore s ctx shardID)))
          = bk_hits (cs_backend s)
      \<and> cs_underlying (snd (cachedstore_ReadShard ops ustore s ctx shardID)) = u)
   \<and> (\<forall>st e u. st_Get ops (bk_strategy (cs_backend s)) shardID = (None, st)
        \<and> ReadShard ustore (cs_underlying s) ctx shardID = (Inl e, u) \<longrightarrow>
      fst (cachedstore_ReadShard ops ustore s ctx shardID) = Inl e
      \<and> bk_strategy (cs_backend (snd (cachedstore_ReadShard ops ustore s ctx shardID))) = st
      \<and> bk_misses (cs_backend (snd (cachedstore_ReadShard ops ustore s ctx shardID)))
          = bk_misses (cs_backend s) + 1
      \<and> counters (bk_collector (cs_backend (snd (cachedstore_ReadShard ops ustore s ctx shardID))))
            MetricCacheMisses
          = counters (bk_collector (cs_backend s)) MetricCacheMisses + 1
      \<and> bk_hits (cs_backend (snd (cachedstore_ReadShard ops ustore s ctx shardID)))
          = bk_hits (cs_backend s)
      \<and> cs_underlying (snd (cachedstore_ReadShard ops ustore s ctx shardID)) = u)"
proof (intro conjI allI impI)
  fix data st
  assume h: "st_Get ops (bk_strategy (cs_backend s)) shardID = (Some data, st)"
  note r = cachedstore_hit [OF h, of ustore ctx]
  show "fst (cachedstore_ReadShard ops ustore s ctx shardID) = Inr data"
    "bk_hits (cs_backend (snd (cachedstore_ReadShard ops ustore s ctx shardID)))
          = bk_hits (cs_backend s) + 1"
    "counters (bk_collector (cs_backend (snd (cachedstore_ReadShard ops ustore s ctx shardID))))
            MetricCacheHits
          = counters (bk_collector (cs_backend s)) MetricCacheHits + 1"
    "bk_misses (cs_backend (snd (cachedstore_ReadShard ops ustore s ctx shardID)))
          = bk_misses (cs_backend s)"
    "bk_strategy (cs_backend (snd (cachedstore_ReadShard ops ustore s ctx shardID))) = st"
    "cs_underlying (snd (cachedstore_ReadShard ops ustore s ctx shardID)) = cs_underlying s"
    by (simp_all add: r IncCounter_def)
next
  fix st data u
  assume h: "st_Get ops (bk_strategy (cs_backend s)) shardID = (None, st)
        \<and> ReadShard ustore (cs_underlying s) ctx shardID = (Inr data, u)"
  then have h1: "st_Get ops (bk_strategy (cs_backend s)) shardID = (None, st)"
    and h2: "ReadShard ustore (cs_underlying s) ctx shardID = (Inr data, u)" by simp_all
  note r = cachedstore_miss_ok [OF h1 h2]
  show "fst (cachedstore_ReadShard ops ustore s ctx shardID) = Inr data"
    "bk_strategy (cs_backend (snd (cachedstore_ReadShard ops ustore s ctx shardID)))
          = snd (st_Add ops st shardID data)"
    "bk_misses (cs_backend (snd (cachedstore_ReadShard ops ustore s ctx shardID)))
          = bk_misses (cs_backend s) + 1"
    "counters (bk_collector (cs_backend (snd (cachedstore_ReadShard ops ustore s ctx shardID))))
            MetricCacheMisses
          = counters (bk_collector (cs_backend s)) MetricCacheMisses + 1"
    "bk_hits (cs_backend (snd (cachedstore_ReadShard ops ustore s ctx shardID)))
          = bk_hits (cs_backend s)"
    "cs_underlying (snd (cachedstore_ReadShard ops ustore s ctx shardID)) = u"
    by (simp_all add: r Backend_Set_fields IncCounter_def)
next
  fix st e u
  assume h: "st_Get ops (bk_strategy (cs_backend s)) shardID = (None, st)
        \<and> ReadShard ustore (cs_underlying s) ctx shardID = (Inl e, u)"
  then have h1: "st_Get ops (bk_strategy (cs_backend s)) shardID = (None, st)"
    and h2: "ReadShard ustore (cs_underlying s) ctx shardID = (Inl e, u)" by simp_all
  note r = cachedstore_miss_err [OF h1 h2]
  show "fst (cachedstore_ReadShard ops ustore s ctx shardID) = Inl e"
    "bk_strategy (cs_backend (snd (cachedstore_ReadShard ops ustore s ctx shardID))) = st"
    "bk_misses (cs_backend (snd (cachedstore_ReadShard ops ustore s ctx shardID)))
          = bk_misses (cs_backend s) + 1"
    "counters (bk_collector (cs_backend (snd (cachedstore_ReadShard ops ustore s ctx shardID))))
            MetricCacheMisses
          = counters (bk_collector (cs_backend s)) MetricCacheMisses + 1"
    "bk_hits (cs_backend (snd (cachedstore_ReadShard ops ustore s ctx shardID)))
          = bk_hits (cs_backend s)"
    "cs_underlying (snd (cachedstore_ReadShard ops ustore s ctx shardID)) = u"
    by (simp_all add: r IncCounter_def)
qed


text \<open>A cache of capacity 2 holding the entries \<open>es\<close>, over an in-memory store.\<close>

definition example_cache :: "(int \<times> string) list \<Rightarrow> (int \<rightharpoonup> string) \<Rightarrow> (LRU, int \<rightharpoonup> string) CachedStore" where
  "example_cache es shards =
     \<lparr>cs_backend = (Backend_new 2)\<lparr>bk_strategy := \<lparr>lru_capacity = 2, lru_entries = es\<rparr>\<rparr>,
      cs_underlying = shards\<rparr>"

lemma example_cache_fields:
  "bk_strategy (cs_backend (example_cache es shards)) = \<lparr>lru_capacity = 2, lru_entries = es\<rparr>"
  "bk_hits (cs_backend (example_cache es shards)) = 0"
  "bk_misses (cs_backend (example_cache es shards)) = 0"
  "cs_underlying (example_cache es shards) = shards"
  by (simp_all add: example_cache_def Backend_new_def)

theorem cachedstore_ReadShard_read_through_witness:
  "fst (cachedstore_ReadShard lru memstore (example_cache [(7, ''data'')] Map.empty) None 7)
     = Inr ''data''
   \<and> bk_hits (cs_backend (snd (cachedstore_ReadShard lru memstore
         (example_cache [(7, ''data'')] Map.empty) None 7))) = 1
   \<and> fst (cachedstore_ReadShard lru memstore (example_cache [] [3 \<mapsto> ''abc'']) None 3)
     = Inr ''abc''
   \<and> lru_entries (bk_strategy (cs_backend (snd (cachedstore_ReadShard lru memstore
         (example_cache [] [3 \<mapsto> ''abc'']) None 3)))) = [(3, ''abc'')]
   \<and> bk_misses (cs_backend (snd (cachedstore_ReadShard lru memstore
         (example_cache [] [3 \<mapsto> ''abc'']) None 3))) = 1
   \<and> fst (cachedstore_ReadShard lru memstore (example_cache [] Map.empty) None 9)
     = Inl StoreErrNotFound
   \<and> lru_entries (bk_strategy (cs_backend (snd (cachedstore_ReadShard lru memstore
         (example_cache [] Map.empty) None 9)))) = []
   \<and> bk_misses (cs_backend (snd (cachedstore_ReadShard lru memstore
         (example_cache [] Map.empty) None 9))) = 1"
proof -
  have g1: "st_Get lru (bk_strategy (cs_backend (example_cache [(7, ''data'')] Map.empty))) 7
      = (Some ''data'', \<lparr>lru_capacity = 2, lru_entries = [(7, ''data'')]\<rparr>)"
    by (simp add: example_cache_fields lru_def lru_Get_def)
  have g2: "st_Get lru (bk_strategy (cs_backend (example_cache [] [3 \<mapsto> ''abc'']))) 3
      = (None, \<lparr>lru_capacity = 2, lru_entries = []\<rparr>)"
    by (simp add: example_cache_fields lru_def lru_Get_def)
  have u2: "ReadShard memstore (cs_underlying (example_cache [] [3 \<mapsto> ''abc''])) None 3
      = (Inr ''abc'', [3 \<mapsto> ''abc''])"
    by (simp add: example_cache_fields memstore_def memstore_ReadShard_def)
  have g3: "st_Get lru (bk_strategy (cs_backend (example_cache [] Map.empty))) 9
      = (None, \<lparr>lru_capacity = 2, lru_entries = []\<rparr>)"
    by (simp add: example_cache_fields lru_def lru_Get_def)
  have u3: "ReadShard memstore (cs_underlying (example_cache [] Map.empty)) None 9
      = (Inl StoreErrNotFound, Map.empty)"
    by (simp add: example_cache_fields memstore_def memstore_ReadShard_def)
  have a2: "snd (st_Add lru \<lparr>lru_capacity = 2, lru_entries = []\<rparr> 3 ''abc'')
      = \<lparr>lru_capacity = 2, lru_entries = [(3, ''abc'')]\<rparr>"
    by (simp add: lru_def lru_Add_def)
  from cachedstore_ReadShard_read_through
    [of lru "example_cache [(7, ''data'')] Map.empty" 7 memstore None] g1
  have r1: "fst (cachedstore_ReadShard lru memstore (example_cache [(7, ''data'')] Map.empty) None 7)
     = Inr ''data''
   \<and> bk_hits (cs_backend (snd (cachedstore_ReadShard lru memstore
         (example_cache [(7, ''data'')] Map.empty) None 7))) = 1"
    by (simp add: example_cache_fields)
  from cachedstore_ReadShard_read_through
    [of lru "example_cache [] [3 \<mapsto> ''abc'']" 3 memstore None] g2 u2
  have r2: "fst (cachedstore_ReadShard lru memstore (example_cache [] [3 \<mapsto> ''abc'']) None 3)
     = Inr ''abc''
   \<and> lru_entries (bk_strategy (cs_backend (snd (cachedstore_ReadShard lru memstore
         (example_cache [] [3 \<mapsto> ''abc'']) None 3)))) = [(3, ''abc'')]
   \<and> bk_misses (cs_backend (snd (cachedstore_ReadShard lru memstore
         (example_cache [] [3 \<mapsto> ''abc'']) None 3))) = 1"
    by (simp add: example_cache_fields a2)
  from cachedstore_ReadShard_read_through
    [of lru "example_cache [] Map.empty" 9 memstore None] g3 u3
  have r3: "fst (cachedstore_ReadShard lru memstore (example_cache [] Map.empty) None 9)
     = Inl StoreErrNotFound
   \<and> lru_entries (bk_strategy (cs_backend (snd (cachedstore_ReadShard lru memstore
         (example_cache [] Map.empty) None 9)))) = []
   \<and> bk_misses (cs_backend (snd (cachedstore_ReadShard lru memstore
         (example_cache [] Map.empty) None 9))) = 1"
    by (simp add: example_cache_fields)
  from r1 r2 r3 show ?thesis by blast
qed

text \<open>
  On an empty cache over an empty store the read fails with the store's \<open>ErrNotFound\<close>,
  and the miss counters have gone from 0 to 1: a miss is counted without a successful
  delegated read.
\<close>

theorem cachedstore_miss_counted_on_error_counterexample:
  "fst (cachedstore_ReadShard lru memstore (example_cache [] Map.empty) None 9)
     = Inl StoreErrNotFound
   \<and> bk_misses (cs_backend (example_cache [] Map.empty)) = 0
   \<and> bk_misses (cs_backend (snd (cachedstore_ReadShard lru memstore
         (example_cache [] Map.empty) None 9))) = 1
   \<and> counters (bk_collector (cs_backend (snd (cachedstore_ReadShard lru memstore
         (example_cache [] Map.empty) None 9)))) MetricCacheMisses = 1"
  by (simp add: cachedstore_ReadShard_def Backend_Get_def example_cache_def Backend_new_def
      lru_def lru_Get_def memstore_def memstore_ReadShard_def IncCounter_def Collector_zero_def)


text \<open>The identity codec (internal/codec/noopcodec) and an empty disk store, for examples.\<close>

definition noop_codec :: Codec where
  "noop_codec = \<lparr>codec_Reader = (\<lambda>b. Inr (Inr b)), codec_Extension = []\<rparr>"

definition example_disk :: DiskStore where
  "example_disk =
     \<lparr>ds_root = ''/data'', ds_codec = noop_codec,
      ds_fs = \<lparr>fs_ReadFile = (\<lambda>p. NotExist), fs_Join = (\<lambda>ps. Join ps ''/''), fs_reads = []\<rparr>\<rparr>"

definition example_disk_cache :: "(int \<times> string) list \<Rightarrow> (LRU, DiskStore) CachedStore" where
  "example_disk_cache es =
     \<lparr>cs_backend = (Backend_new 2)\<lparr>bk_strategy := \<lparr>lru_capacity = 2, lru_entries = es\<rparr>\<rparr>,
      cs_underlying = example_disk\<rparr>"

lemma diskstore_ReadShard_done: "diskstore_ReadShard d (Some e) shardID = (Inl e, d)"
  by (simp add: diskstore_ReadShard_def)

lemma s3store_ReadShard_done: "s3store_ReadShard s (Some e) shardID = (Inl e, s)"
  by (simp add: s3store_ReadShard_def)

lemma gcsstore_ReadShard_done: "gcsstore_ReadShard s (Some e) shardID = (Inl e, s)"
  by (simp add: gcsstore_ReadShard_def)

lemma memstore_ReadShard_ignores_ctx:
  "memstore_ReadShard m ctx shardID = memstore_ReadShard m None shardID"
  by (simp add: memstore_ReadShard_def)

text \<open>
  Claim C7 (as amended).  With an already-cancelled token the disk, S3 and GCS stores
  return the token's error for every shard id, return no data, and leave their state as
  it was: no file is read and no request is sent.  The cache-wrapping store does not look
  at the token itself: on a miss it hands the token to the underlying store and returns
  that store's error without inserting anything (over the disk store: the cancelled
  error, the disk untouched); on a hit it returns the cached bytes, cancelled or not.
  The in-memory store does not read the token.
\<close>

theorem ReadShard_cancelled:
  "diskstore_ReadShard d (Some e) shardID = (Inl e, d)
   \<and> s3store_ReadShard b (Some e) shardID = (Inl e, b)
   \<and> gcsstore_ReadShard b (Some e) shardID = (Inl e, b)
   \<and> (\<forall>st u. st_Get ops (bk_strategy (cs_backend c)) shardID = (None, st)
         \<and> ReadShard ustore (cs_underlying c) (Some e) shardID = (Inl e, u) \<longrightarrow>
        fst (cachedstore_ReadShard ops ustore c (Some e) shardID) = Inl e
        \<and> bk_strategy (cs_backend (snd (cachedstore_ReadShard ops ustore c (Some e) shardID))) = st)
   \<and> (\<forall>st. st_Get ops (bk_strategy (cs_backend dc)) shardID = (None, st) \<longrightarrow>
        fst (cachedstore_ReadShard ops diskstore dc (Some e) shardID) = Inl e
        \<and> bk_strategy (cs_backend (snd (cachedstore_ReadShard ops diskstore dc (Some e) shardID))) = st
        \<and> cs_underlying (snd (cachedstore_ReadShard ops diskstore dc (Some e) shardID))
            = cs_underlying dc)
   \<and> (\<forall>data st. st_Get ops (bk_strategy (cs_backend c)) shardID = (Some data, st) \<longrightarrow>
        fst (cachedstore_ReadShard ops ustore c (Some e) shardID) = Inr data)
   \<and> memstore_ReadShard m (Some e) shardID = memstore_ReadShard m None shardID"
proof (intro conjI allI impI)
  show "diskstore_ReadShard d (Some e) shardID = (Inl e, d)" by (rule diskstore_ReadShard_done)
  show "s3store_ReadShard b (Some e) shardID = (Inl e, b)" by (rule s3store_ReadShard_done)
  show "gcsstore_ReadShard b (Some e) shardID = (Inl e, b)" by (rule gcsstore_ReadShard_done)
  show "memstore_ReadShard m (Some e) shardID = memstore_ReadShard m None shardID"
    by (rule memstore_ReadShard_ignores_ctx)
next
  fix st u
  assume h: "st_Get ops (bk_strategy (cs_backend c)) shardID = (None, st)
         \<and> ReadShard ustore (cs_underlying c) (Some e) shardID = (Inl e, u)"
  then have h1: "st_Get ops (bk_strategy (cs_backend c)) shardID = (None, st)"
    and h2: "ReadShard ustore (cs_underlying c) (Some e) shardID = (Inl e, u)" by simp_all
  note r = cachedstore_miss_err [OF h1 h2]
  show "fst (cachedstore_ReadShard ops ustore c (Some e) shardID) = Inl e"
    "bk_strategy (cs_backend (snd (cachedstore_ReadShard ops ustore c (Some e) shardID))) = st"
    by (simp_all add: r)
next
  fix st
  assume h1: "st_Get ops (bk_strategy (cs_backend dc)) shardID = (None, st)"
  have h2: "ReadShard diskstore (cs_underlying dc) (Some e) shardID = (Inl e, cs_underlying dc)"
    by (simp add: diskstore_def diskstore_ReadShard_done)
  note r = cachedstore_miss_err [OF h1 h2]
  show "fst (cachedstore_ReadShard ops diskstore dc (Some e) shardID) = Inl e"
    "bk_strategy (cs_backend (snd (cachedstore_ReadShard ops diskstore dc (Some e) shardID))) = st"
    "cs_underlying (snd (cachedstore_ReadShard ops diskstore dc (Some e) shardID))
            = cs_underlying dc"
    by (simp_all add: r)
next
  fix data st
  assume h: "st_Get ops (bk_strategy (cs_backend c)) shardID = (Some data, st)"
  show "fst (cachedstore_ReadShard ops ustore c (Some e) shardID) = Inr data"
    by (simp add: cachedstore_hit [OF h])
qed

lemma example_disk_cache_fields:
  "bk_strategy (cs_backend (example_disk_cache es)) = \<lparr>lru_capacity = 2, lru_entries = es\<rparr>"
  "cs_underlying (example_disk_cache es) = example_disk"
  by (simp_all add: example_disk_cache_def Backend_new_def)

theorem ReadShard_cancelled_witness:
  "diskstore_ReadShard example_disk (Some Canceled) 7 = (Inl Canceled, example_disk)
   \<and> fs_reads (ds_fs (snd (diskstore_ReadShard example_disk (Some Canceled) 7))) = []
   \<and> fst (cachedstore_ReadShard lru diskstore (example_disk_cache []) (Some Canceled) 7)
        = Inl Canceled
   \<and> lru_entries (bk_strategy (cs_backend
        (snd (cachedstore_ReadShard lru diskstore (example_disk_cache []) (Some Canceled) 7)))) = []
   \<and> fst (cachedstore_ReadShard lru diskstore (example_disk_cache [(7, ''data'')]) (Some Canceled) 7)
        = Inr ''data''"
proof -
  note t = ReadShard_cancelled [of example_disk Canceled 7 _ lru "example_disk_cache [(7, ''data'')]"
      diskstore "example_disk_cache []"]
  have g0: "st_Get lru (bk_strategy (cs_backend (example_disk_cache []))) 7
      = (None, \<lparr>lru_capacity = 2, lru_entries = []\<rparr>)"
    by (simp add: example_disk_cache_fields lru_def lru_Get_def)
  have g1: "st_Get lru (bk_strategy (cs_backend (example_disk_cache [(7, ''data'')]))) 7
      = (Some ''data'', \<lparr>lru_capacity = 2, lru_entries = [(7, ''data'')]\<rparr>)"
    by (simp add: example_disk_cache_fields lru_def lru_Get_def)
  from t have d: "diskstore_ReadShard example_disk (Some Canceled) 7 = (Inl Canceled, example_disk)"
    by blast
  then have l: "fs_reads (ds_fs (snd (diskstore_ReadShard example_disk (Some Canceled) 7))) = []"
    by (simp add: example_disk_def)
  from t g0 have m: "fst (cachedstore_ReadShard lru diskstore (example_disk_cache []) (Some Canceled) 7)
        = Inl Canceled
     \<and> bk_strategy (cs_backend
        (snd (cachedstore_ReadShard lru diskstore (example_disk_cache []) (Some Canceled) 7)))
        = \<lparr>lru_capacity = 2, lru_entries = []\<rparr>"
    by blast
  from t g1 have h: "fst (cachedstore_ReadShard lru diskstore (example_disk_cache [(7, ''data'')])
        (Some Canceled) 7) = Inr ''data''"
    by blast
  from d l m h show ?thesis by simp
qed

text \<open>
  With the shard in the cache, a read through the cache with a cancelled token returns the
  shard's bytes, not the cancelled error; so does the in-memory store.
\<close>

theorem ReadShard_cancelled_cache_hit_counterexample:
  "fst (cachedstore_ReadShard lru diskstore (example_disk_cache [(7, ''data'')]) (Some Canceled) 7)
     = Inr ''data''
   \<and> fst (memstore_ReadShard [7 \<mapsto> ''data''] (Some Canceled) 7) = Inr ''data''"
  by (simp add: cachedstore_ReadShard_def Backend_Get_def example_disk_cache_def Backend_new_def
      lru_def lru_Get_def memstore_ReadShard_def)


section \<open>The client (stockpile.go)\<close>


























section \<open>Collectors and the memory tracker (internal/builder/builder.go)\<close>





























section \<open>The accounting invariant\<close>




lemma sort_key_eq_Nil: "sort_key k xs = [] \<longleftrightarrow> xs = []"
proof -
  have "length (sort_key k xs) = length xs" by (rule length_sort)
  then show ?thesis by (metis length_0_conv)
qed
















































end
